theory Spec2Isabelle
  imports Complex_Main "HOL-Library.Word" "HOL-Library.AList"
begin

unbundle bit_operations_syntax

section \<open>Mempool fee estimator (pkg/mempool/estimatefee.go)\<close>

text \<open>
  Machine types of the source: \<open>uint32\<close> and \<open>int32\<close> are \<open>32 word\<close> (\<open><\<close> is the
  unsigned comparison, \<open><s\<close> the signed one, \<open>+\<close> and \<open>-\<close> wrap); Go's \<open>int\<close> (64 bit, never
  near its bounds here) is \<open>int\<close> or \<open>nat\<close>; \<open>chainhash.Hash\<close> is \<open>[32]byte\<close>, a 256-bit value.
  A \<open>*observedTransaction\<close> is a pointer: \<open>None\<close> is \<open>nil\<close>, \<open>Some a\<close> the object at address
  \<open>a\<close> of the object store \<open>objs\<close> carried in the estimator record.  A fixed-size array
  \<open>[estimateFeeDepth]T\<close> is a function from the indices below \<open>estimateFeeDepth\<close>.

  The fee rate type \<open>'r\<close> stands for \<open>float64\<close>.  The estimation functions are stated for
  \<open>real\<close>: rounding, NaN and the infinities of IEEE-754 are not represented, and the one place
  where the source produces an infinity takes it as the parameter \<open>posInf\<close>.
\<close>

type_synonym byte = "8 word"
type_synonym hash = "256 word"
type_synonym ptr = "nat option"

record 'r observedTransaction =
  hash :: hash
  feeRate :: 'r
  observed :: "32 word"
  mined :: "32 word"

record registeredBlock =
  rb_hash :: hash
  transactions :: "ptr list"

record 'r FeeEstimator =
  maxRollback :: "32 word"
  binSize :: "32 word"
  maxReplacements :: "32 word"
  minRegisteredBlocks :: "32 word"
  lastKnownHeight :: "32 word"
  numBlocksRegistered :: "32 word"
  observedMap :: "(hash \<times> ptr) list"
  bin :: "nat \<Rightarrow> ptr list"
  cached :: "'r list option"
  dropped :: "registeredBlock list"
  objs :: "'r observedTransaction list"

record 'r estimateFeeSet =
  set_feeRate :: "'r list"
  set_bin :: "nat \<Rightarrow> 32 word"

datatype panic =
    NilPointerDereference
  | IndexOutOfRange
  | InvalidArgumentToIntn
  | IllegalRollbackState
  | SliceBoundsOutOfRange

datatype error =
    ErrNotEnoughBlocks
  | ErrZeroBlocks
  | ErrTooManyBlocks
  | ErrIntermediateBlock
  | ErrAlreadyMined
  | ErrNoSuchBlock
  | ErrIncorrectVersion
  | ErrEOF
  | ErrUnexpectedEOF
  | ErrInvalidTransactionReference "32 word"
  | Panic panic

definition estimateFeeDepth :: nat where
  "estimateFeeDepth = 25"

definition bytePerKb :: real where
  "bytePerKb = 1000"

definition duoPerSatoshi :: real where
  "duoPerSatoshi = 1 / 100000000"

text \<open>Pointer dereference: \<open>None\<close> where Go panics with a nil dereference.\<close>

definition deref :: "'r observedTransaction list \<Rightarrow> ptr \<Rightarrow> 'r observedTransaction option" where
  "deref os p = (case p of None \<Rightarrow> None
                 | Some a \<Rightarrow> if a < length os then Some (os ! a) else None)"

text \<open>\<open>ToBtcPerKb\<close>: the rate \<open>-1\<close> is the error value and is passed through.\<close>

definition ToBtcPerKb :: "real \<Rightarrow> real" where
  "ToBtcPerKb rate = (if rate = - 1 then - 1 else rate * bytePerKb * duoPerSatoshi)"

text \<open>
  \<open>newEstimateFeeSet\<close>: the bin sizes as \<open>uint32\<close> and every binned fee rate, sorted with
  \<open>Less(i, j) = feeRate[i] > feeRate[j]\<close>, that is in descending order.
\<close>

definition binnedRates :: "'r FeeEstimator \<Rightarrow> 'r list option" where
  "binnedRates ef =
     those (map (\<lambda>p. map_option feeRate (deref (objs ef) p))
                (concat (map (bin ef) [0..<estimateFeeDepth])))"

definition newEstimateFeeSet :: "real FeeEstimator \<Rightarrow> error + real estimateFeeSet" where
  "newEstimateFeeSet ef =
     (case binnedRates ef of
        None \<Rightarrow> Inl (Panic NilPointerDereference)
      | Some rs \<Rightarrow>
          Inr \<lparr> set_feeRate = rev (sort rs),
                set_bin = (\<lambda>i. if i < estimateFeeDepth then of_nat (length (bin ef i)) else 0) \<rparr>)"

text \<open>\<open>estimateFeeSet.estimateFee\<close>; \<open>min\<close> and \<open>max\<close> of the source are \<open>lo\<close> and \<open>hi\<close>.\<close>

definition binPrefix :: "(nat \<Rightarrow> 32 word) \<Rightarrow> nat \<Rightarrow> int" where
  "binPrefix b n = (\<Sum>i\<leftarrow>[0..<n]. int (unat (b i)))"

definition feeIndex :: "real estimateFeeSet \<Rightarrow> int \<Rightarrow> int" where
  "feeIndex b confirmations =
     (let lo = binPrefix (set_bin b) (nat (confirmations - 1));
          hi0 = lo + int (unat (set_bin b (nat (confirmations - 1)))) - 1;
          hi = (if hi0 < lo then lo else hi0);
          i = (lo + hi) div 2
      in if i \<ge> int (length (set_feeRate b)) then int (length (set_feeRate b)) - 1 else i)"

definition estimateFee :: "real \<Rightarrow> real estimateFeeSet \<Rightarrow> int \<Rightarrow> real" where
  "estimateFee posInf b confirmations =
     (if confirmations \<le> 0 then posInf
      else if confirmations > int estimateFeeDepth then 0
      else if length (set_feeRate b) = 0 then 0
      else set_feeRate b ! nat (feeIndex b confirmations))"

definition estimates :: "real \<Rightarrow> real FeeEstimator \<Rightarrow> error + real list" where
  "estimates posInf ef =
     (case newEstimateFeeSet ef of
        Inl e \<Rightarrow> Inl e
      | Inr s \<Rightarrow> Inr (map (\<lambda>i. estimateFee posInf s (int i + 1)) [0..<estimateFeeDepth]))"

text \<open>
  \<open>FeeEstimator.EstimateFee\<close>.  The result is \<open>Inl\<close> the error (the source returns the value
  \<open>-1\<close> beside it) or \<open>Inr\<close> the estimate, together with the estimator, whose cache may have
  been filled.
\<close>

definition EstimateFee ::
  "real \<Rightarrow> real FeeEstimator \<Rightarrow> 32 word \<Rightarrow> (error + real) \<times> real FeeEstimator" where
  "EstimateFee posInf ef numBlocks =
     (if numBlocksRegistered ef < minRegisteredBlocks ef then (Inl ErrNotEnoughBlocks, ef)
      else if numBlocks = 0 then (Inl ErrZeroBlocks, ef)
      else if numBlocks > of_nat estimateFeeDepth then (Inl ErrTooManyBlocks, ef)
      else
        (case (case cached ef of
                 None \<Rightarrow> (case estimates posInf ef of
                             Inl e \<Rightarrow> Inl e
                           | Inr es \<Rightarrow> Inr (ef\<lparr>cached := Some es\<rparr>, es))
               | Some es \<Rightarrow> Inr (ef, es)) of
           Inl e \<Rightarrow> (Inl e, ef)
         | Inr (ef', es) \<Rightarrow>
             if unat numBlocks - 1 < length es
             then (Inr (ToBtcPerKb (es ! (unat numBlocks - 1))), ef')
             else (Inl (Panic IndexOutOfRange), ef')))"

text \<open>
  Representation invariants of an estimator, as far as estimation needs them: the bins hold
  pointers to live objects, and the cache is empty or holds what \<open>estimates\<close> computes from the
  current bins (every function that changes a bin clears the cache first).
\<close>

definition bins_live :: "'r FeeEstimator \<Rightarrow> bool" where
  "bins_live ef = list_all (\<lambda>i. list_all (\<lambda>p. deref (objs ef) p \<noteq> None) (bin ef i))
                           [0..<estimateFeeDepth]"

definition cache_ok :: "real \<Rightarrow> real FeeEstimator \<Rightarrow> bool" where
  "cache_ok posInf ef = (case cached ef of None \<Rightarrow> True | Some es \<Rightarrow> estimates posInf ef = Inr es)"

text \<open>
  Further conditions used by the estimation theorems: every bin shorter than \<open>2^32\<close> (so that
  the \<open>uint32\<close> bin sizes of the fee set are the lengths), and no negative binned fee rate.
\<close>

definition bins_small :: "'r FeeEstimator \<Rightarrow> bool" where
  "bins_small ef = list_all (\<lambda>i. length (bin ef i) < 2 ^ 32) [0..<estimateFeeDepth]"

definition rates_nonneg :: "real FeeEstimator \<Rightarrow> bool" where
  "rates_nonneg ef =
     (case binnedRates ef of None \<Rightarrow> True | Some rs \<Rightarrow> list_all (\<lambda>r. 0 \<le> r) rs)"



text \<open>
  \<open>newTestFeeEstimator\<close> of the package's tests, and two estimators used as concrete inputs:
  \<open>ef_two\<close> holds one transaction of rate 5 in bin 0 and one of rate 3 in bin 2; \<open>ef_neg\<close>
  holds the rates \<open>-1\<close> and \<open>-2\<close> in bins 0 and 1.
\<close>

definition newTestFeeEstimator :: "32 word \<Rightarrow> 32 word \<Rightarrow> 32 word \<Rightarrow> 'r FeeEstimator" where
  "newTestFeeEstimator binSize' maxReplacements' maxRollback' =
     \<lparr> maxRollback = maxRollback', binSize = binSize', maxReplacements = maxReplacements',
       minRegisteredBlocks = 0, lastKnownHeight = 0, numBlocksRegistered = 0,
       observedMap = [], bin = (\<lambda>_. []), cached = None, dropped = [], objs = [] \<rparr>"

definition ef_two :: "real FeeEstimator" where
  "ef_two = (newTestFeeEstimator 5 3 1)
     \<lparr> lastKnownHeight := 3, numBlocksRegistered := 3,
       observedMap := [(1, Some 0), (2, Some 1)],
       bin := (\<lambda>_. [])(0 := [Some 0], 2 := [Some 1]),
       objs := [\<lparr> hash = 1, feeRate = 5, observed = 0, mined = 1 \<rparr>,
                \<lparr> hash = 2, feeRate = 3, observed = 0, mined = 3 \<rparr>] \<rparr>"


subsection \<open>NewFeeEstimator and RegisterBlock\<close>

text \<open>
  \<open>mining.UnminedHeight\<close> is declared outside the files at hand; the functions that use it take
  it as the parameter \<open>UnminedHeight\<close>.  \<open>estimateFeeBinSize\<close> and
  \<open>estimateFeeMaxReplacements\<close> are the constants of the source.
\<close>

definition estimateFeeBinSize :: "32 word" where
  "estimateFeeBinSize = 100"

definition estimateFeeMaxReplacements :: "32 word" where
  "estimateFeeMaxReplacements = 10"

definition NewFeeEstimator :: "32 word \<Rightarrow> 32 word \<Rightarrow> 32 word \<Rightarrow> 'r FeeEstimator" where
  "NewFeeEstimator UnminedHeight maxRollback' minRegisteredBlocks' =
     \<lparr> maxRollback = maxRollback', binSize = estimateFeeBinSize,
       maxReplacements = estimateFeeMaxReplacements,
       minRegisteredBlocks = minRegisteredBlocks', lastKnownHeight = UnminedHeight,
       numBlocksRegistered = 0, observedMap = [], bin = (\<lambda>_. []), cached = None,
       dropped = [], objs = [] \<rparr>"

text \<open>
  A block as \<open>RegisterBlock\<close> sees it: its height, its hash and the hashes of its transactions.
  The source puts the transactions in a map keyed by pointer and ranges over it, which visits
  every transaction once in an order chosen by the runtime; \<open>blk_txs\<close> lists them in the
  order visited, so a statement about every block covers every order.  \<open>rand.Intn\<close> draws from
  the list \<open>rnd\<close>: \<open>draw l rnd\<close> is a number below \<open>l\<close>, any of them for a suitable \<open>rnd\<close>.
\<close>

record Block =
  blk_height :: "32 word"
  blk_hash :: hash
  blk_txs :: "hash list"

definition draw :: "nat \<Rightarrow> nat list \<Rightarrow> nat \<times> nat list" where
  "draw l rnd = (case rnd of [] \<Rightarrow> (0, []) | r # rs \<Rightarrow> (r mod l, rs))"

text \<open>The state of the loop over the transactions of the block.\<close>

record 'r registerLoop =
  rl_ef :: "'r FeeEstimator"
  replacementCounts :: "nat \<Rightarrow> nat"
  rl_dropped :: "ptr list"
  rl_rnd :: "nat list"

fun registerTxs ::
  "32 word \<Rightarrow> 32 word \<Rightarrow> hash list \<Rightarrow> 'r registerLoop \<Rightarrow> error option \<times> 'r registerLoop" where
  "registerTxs UnminedHeight height [] st = (None, st)"
| "registerTxs UnminedHeight height (t # ts) st =
     (let ef = rl_ef st in
      case map_of (observedMap ef) t of
        None \<Rightarrow> registerTxs UnminedHeight height ts st
      | Some p \<Rightarrow>
          (case deref (objs ef) p of
             None \<Rightarrow> (Some (Panic NilPointerDereference), st)
           | Some ot \<Rightarrow>
               (let blocksToConfirm = height - observed ot - 1 in
                if mined ot \<noteq> UnminedHeight then (Some ErrAlreadyMined, st)
                else if of_nat estimateFeeDepth \<le>s blocksToConfirm
                  then registerTxs UnminedHeight height ts st
                else if blocksToConfirm <s 0 then (Some (Panic IndexOutOfRange), st)
                else
                  (let i = unat blocksToConfirm in
                   if int (replacementCounts st i) = sint (maxReplacements ef)
                     then registerTxs UnminedHeight height ts st
                   else
                     (let os = (objs ef)[the p := ot\<lparr>mined := height\<rparr>];
                          cnts = (replacementCounts st)(i := replacementCounts st i + 1);
                          b = bin ef i
                      in if int (length b) = sint (binSize ef) then
                           (let l = sint (binSize ef) - int (cnts i) in
                            if l \<le> 0 then
                              (Some (Panic InvalidArgumentToIntn),
                               st\<lparr>rl_ef := ef\<lparr>objs := os\<rparr>, replacementCounts := cnts\<rparr>)
                            else
                              (let (drop, rnd) = draw (nat l) (rl_rnd st);
                                   b' = (b[drop := b ! (nat l - 1)])[nat l - 1 := p]
                               in registerTxs UnminedHeight height ts
                                    \<lparr> rl_ef = ef\<lparr>objs := os, bin := (bin ef)(i := b')\<rparr>,
                                      replacementCounts = cnts,
                                      rl_dropped = rl_dropped st @ [b ! drop],
                                      rl_rnd = rnd \<rparr>))
                         else
                           registerTxs UnminedHeight height ts
                             (st\<lparr>rl_ef := ef\<lparr>objs := os, bin := (bin ef)(i := b @ [p])\<rparr>,
                                 replacementCounts := cnts\<rparr>))))))"

text \<open>
  The second loop removes the observed transactions that were not mined and have been in the
  mempool for \<open>estimateFeeDepth\<close> blocks or more.
\<close>

fun expireObserved ::
  "32 word \<Rightarrow> 32 word \<Rightarrow> 'r observedTransaction list \<Rightarrow> (hash \<times> ptr) list
   \<Rightarrow> error + (hash \<times> ptr) list" where
  "expireObserved UnminedHeight height os [] = Inr []"
| "expireObserved UnminedHeight height os ((h, p) # rest) =
     (case deref os p of
        None \<Rightarrow> Inl (Panic NilPointerDereference)
      | Some ot \<Rightarrow>
          (case expireObserved UnminedHeight height os rest of
             Inl e \<Rightarrow> Inl e
           | Inr rest' \<Rightarrow>
               if mined ot = UnminedHeight \<and> of_nat estimateFeeDepth \<le>s height - observed ot
               then Inr rest' else Inr ((h, p) # rest')))"

text \<open>
  \<open>FeeEstimator.RegisterBlock\<close>.  The receiver is changed in place, also when an error is
  returned or the call panics, so the result is the error, if any, and the estimator as the
  call leaves it.
\<close>

definition RegisterBlock ::
  "32 word \<Rightarrow> 'r FeeEstimator \<Rightarrow> Block \<Rightarrow> nat list \<Rightarrow> error option \<times> 'r FeeEstimator" where
  "RegisterBlock UnminedHeight ef0 block rnd =
     (let ef1 = ef0\<lparr>cached := None\<rparr>;
          height = blk_height block
      in if height \<noteq> lastKnownHeight ef1 + 1 \<and> lastKnownHeight ef1 \<noteq> UnminedHeight
         then (Some ErrIntermediateBlock, ef1)
         else
           (let ef2 = ef1\<lparr>lastKnownHeight := height,
                          numBlocksRegistered := numBlocksRegistered ef1 + 1\<rparr>
            in case registerTxs UnminedHeight height (blk_txs block)
                    \<lparr> rl_ef = ef2, replacementCounts = (\<lambda>_. 0), rl_dropped = [], rl_rnd = rnd \<rparr> of
                 (Some e, st) \<Rightarrow> (Some e, rl_ef st)
               | (None, st) \<Rightarrow>
                   (let ef3 = rl_ef st;
                        droppedBlock = \<lparr> rb_hash = blk_hash block, transactions = rl_dropped st \<rparr>
                    in case expireObserved UnminedHeight height (objs ef3) (observedMap ef3) of
                         Inl e \<Rightarrow> (Some e, ef3)
                       | Inr obs \<Rightarrow>
                           (let ef4 = ef3\<lparr>observedMap := obs\<rparr>
                            in if maxRollback ef4 = 0 then (None, ef4)
                               else if (of_nat (length (dropped ef4)) :: 32 word) = maxRollback ef4
                                 then (None, ef4\<lparr>dropped := tl (dropped ef4) @ [droppedBlock]\<rparr>)
                               else (None, ef4\<lparr>dropped := dropped ef4 @ [droppedBlock]\<rparr>)))))"

text \<open>Inputs for the evaluation of \<open>RegisterBlock\<close>: a block of height 100 with no transaction.\<close>

definition block_100 :: Block where
  "block_100 = \<lparr> blk_height = 100, blk_hash = 7, blk_txs = [] \<rparr>"

text \<open>
  An estimator at height 3 that has observed one transaction (hash 9, not yet mined under the
  unmined height \<open>2147483647\<close>), and a block of height 4 that holds it.
\<close>

definition ef_obs :: "real FeeEstimator" where
  "ef_obs = (newTestFeeEstimator 5 3 1)
     \<lparr> lastKnownHeight := 3, numBlocksRegistered := 3,
       observedMap := [(9, Some 0)],
       objs := [\<lparr> hash = 9, feeRate = 4, observed = 3, mined = 2147483647 \<rparr>] \<rparr>"

definition block_4 :: Block where
  "block_4 = \<lparr> blk_height = 4, blk_hash = 8, blk_txs = [9] \<rparr>"

subsection \<open>Save and RestoreFeeEstimator\<close>

text \<open>
  \<open>binary.Write\<close> and \<open>binary.Read\<close> with \<open>binary.BigEndian\<close>: an integer of \<open>n\<close> bytes is written
  most significant byte first.  \<open>be_bytes n v\<close> are the \<open>n\<close> low bytes of \<open>v\<close> in that order and
  \<open>be_nat\<close> reads them back.  A \<open>chainhash.Hash\<close> is written as its 32 bytes.  A \<open>float64\<close> is
  written as the 8 bytes of \<open>math.Float64bits\<close> and read with \<open>math.Float64frombits\<close>; the two are
  the parameters \<open>bits\<close> and \<open>frombits\<close> of the functions below, as the fee rate type is one.
\<close>

fun be_bytes :: "nat \<Rightarrow> nat \<Rightarrow> byte list" where
  "be_bytes 0 v = []"
| "be_bytes (Suc n) v = be_bytes n (v div 256) @ [of_nat (v mod 256)]"

definition be_nat :: "byte list \<Rightarrow> nat" where
  "be_nat bs = foldl (\<lambda>a b. 256 * a + unat b) 0 bs"

definition writeUint32 :: "32 word \<Rightarrow> byte list" where
  "writeUint32 v = be_bytes 4 (unat v)"

definition writeUint64 :: "64 word \<Rightarrow> byte list" where
  "writeUint64 v = be_bytes 8 (unat v)"

definition writeHash :: "hash \<Rightarrow> byte list" where
  "writeHash h = be_bytes 32 (unat h)"







text \<open>
  Reading.  The reader is the list of the bytes not yet read.  \<open>binary.Read\<close> of \<open>n\<close> bytes
  fails when fewer are left, with \<open>io.EOF\<close> when none is and \<open>io.ErrUnexpectedEOF\<close> otherwise;
  the reader is at its end then, and the variable read into keeps its value.
  \<open>RestoreFeeEstimator\<close> returns the error of the first read, that of the version.  The error of
  any later read is logged and the function goes on with the variable as it is, which is
  zero: \<open>readUint32\<close>, \<open>readHash\<close> and \<open>readFloat64\<close> give the value read, or zero.
\<close>

definition readFull :: "nat \<Rightarrow> byte list \<Rightarrow> (error + byte list) \<times> byte list" where
  "readFull n r =
     (if n \<le> length r then (Inr (take n r), drop n r)
      else if r = [] then (Inl ErrEOF, [])
      else (Inl ErrUnexpectedEOF, []))"

definition readUint32 :: "byte list \<Rightarrow> 32 word \<times> byte list" where
  "readUint32 r = (case readFull 4 r of (Inl e, r') \<Rightarrow> (0, r')
                   | (Inr bs, r') \<Rightarrow> (of_nat (be_nat bs), r'))"

definition readHash :: "byte list \<Rightarrow> hash \<times> byte list" where
  "readHash r = (case readFull 32 r of (Inl e, r') \<Rightarrow> (0, r')
                 | (Inr bs, r') \<Rightarrow> (of_nat (be_nat bs), r'))"

definition readFloat64 :: "(64 word \<Rightarrow> 'r) \<Rightarrow> byte list \<Rightarrow> 'r \<times> byte list" where
  "readFloat64 frombits r = (case readFull 8 r of (Inl e, r') \<Rightarrow> (frombits 0, r')
                             | (Inr bs, r') \<Rightarrow> (frombits (of_nat (be_nat bs)), r'))"















section \<open>Address-manager store (pkg/waddrmgr/db.go)\<close>

subsection \<open>Buckets of the wallet database\<close>

text \<open>
  The store is reached through the \<open>walletdb\<close> bucket interface, implemented by the \<open>bdb\<close>
  driver over an embedded B+tree.  A bucket is a list of keys with their entries, a value or
  a nested bucket, in the order \<open>ForEach\<close> visits them.  The namespace bucket \<open>ns\<close> is the
  outermost one; a bucket handle (a \<open>walletdb.ReadWriteBucket\<close>) is the path of keys that
  leads to the bucket from the namespace bucket, and \<open>None\<close> is the nil handle.  What the operations do, and the errors
  they return, follows the documentation of the driver: \<open>Put\<close> adds or overwrites, \<open>Get\<close> returns
  nil for a key that does not exist or names a nested bucket, \<open>Delete\<close> of a key that does not
  exist is no error, \<open>ForEach\<close> passes a nil value for a nested bucket.  A method called on
  a nil handle panics.  Read-only and closed transactions, and the size limits of keys and
  values, are not modelled: the functions below run inside one read-write transaction and
  store only keys that exist and values no longer than the stored ones.
\<close>

datatype entry = Val "byte list" | Bkt "(byte list \<times> entry) list"

type_synonym bucket = "(byte list \<times> entry) list"
type_synonym handle = "byte list list"

datatype db_error =
    ErrBucketNotFound
  | ErrBucketExists
  | ErrBucketNameRequired
  | ErrKeyRequired
  | ErrIncompatibleValue

text \<open>
  The errors of the address manager.  \<open>managerError\<close> and its error codes are declared outside
  the files at hand; a \<open>ManagerError\<close> is modelled by its code and its description.  An error of
  the database that is passed on as it is keeps its identity, the error made with
  \<open>fmt.Errorf\<close> by the version 5 upgrade is \<open>SegwitAddressExists\<close>, and \<open>Crash\<close> is a panic.
\<close>

datatype error_code = ErrDatabase | ErrUpgrade | ErrScopeNotFound

datatype wm_error =
    ManagerError error_code string
  | WalletDb db_error
  | SegwitAddressExists
  | Crash panic

fun lookupB :: "bucket \<Rightarrow> handle \<Rightarrow> bucket option" where
  "lookupB b [] = Some b"
| "lookupB b (k # ks) = (case map_of b k of Some (Bkt b') \<Rightarrow> lookupB b' ks | _ \<Rightarrow> None)"

fun modifyB :: "(bucket \<Rightarrow> bucket) \<Rightarrow> bucket \<Rightarrow> handle \<Rightarrow> bucket" where
  "modifyB f b [] = f b"
| "modifyB f b (k # ks) =
     (case map_of b k of
        Some (Bkt b') \<Rightarrow> AList.update k (Bkt (modifyB f b' ks)) b
      | _ \<Rightarrow> b)"

definition NestedReadWriteBucket :: "bucket \<Rightarrow> handle \<Rightarrow> byte list \<Rightarrow> handle option" where
  "NestedReadWriteBucket ns h key =
     (case lookupB ns (h @ [key]) of None \<Rightarrow> None | Some _ \<Rightarrow> Some (h @ [key]))"

definition bucket_Get :: "bucket \<Rightarrow> handle \<Rightarrow> byte list \<Rightarrow> wm_error + byte list option" where
  "bucket_Get ns h key =
     (case lookupB ns h of
        None \<Rightarrow> Inl (Crash NilPointerDereference)
      | Some b \<Rightarrow> (case map_of b key of Some (Val v) \<Rightarrow> Inr (Some v) | _ \<Rightarrow> Inr None))"

text \<open>A nil slice stored with \<open>Put\<close> is the empty value.\<close>

definition bytesOf :: "byte list option \<Rightarrow> byte list" where
  "bytesOf v = (case v of None \<Rightarrow> [] | Some bs \<Rightarrow> bs)"

definition bucket_Put :: "bucket \<Rightarrow> handle \<Rightarrow> byte list \<Rightarrow> byte list \<Rightarrow> wm_error + bucket" where
  "bucket_Put ns h key v =
     (case lookupB ns h of
        None \<Rightarrow> Inl (Crash NilPointerDereference)
      | Some b \<Rightarrow>
          if key = [] then Inl (WalletDb ErrKeyRequired)
          else (case map_of b key of
                  Some (Bkt _) \<Rightarrow> Inl (WalletDb ErrIncompatibleValue)
                | _ \<Rightarrow> Inr (modifyB (AList.update key (Val v)) ns h)))"

definition bucket_Delete :: "bucket \<Rightarrow> handle \<Rightarrow> byte list \<Rightarrow> wm_error + bucket" where
  "bucket_Delete ns h key =
     (case lookupB ns h of
        None \<Rightarrow> Inl (Crash NilPointerDereference)
      | Some b \<Rightarrow>
          (case map_of b key of
             Some (Bkt _) \<Rightarrow> Inl (WalletDb ErrIncompatibleValue)
           | _ \<Rightarrow> Inr (modifyB (AList.delete key) ns h)))"

definition bucket_CreateBucket ::
  "bucket \<Rightarrow> handle \<Rightarrow> byte list \<Rightarrow> wm_error + bucket \<times> handle" where
  "bucket_CreateBucket ns h key =
     (case lookupB ns h of
        None \<Rightarrow> Inl (Crash NilPointerDereference)
      | Some b \<Rightarrow>
          if key = [] then Inl (WalletDb ErrBucketNameRequired)
          else (case map_of b key of
                  Some (Bkt _) \<Rightarrow> Inl (WalletDb ErrBucketExists)
                | Some (Val _) \<Rightarrow> Inl (WalletDb ErrIncompatibleValue)
                | None \<Rightarrow> Inr (modifyB (AList.update key (Bkt [])) ns h, h @ [key])))"

definition bucket_CreateBucketIfNotExists ::
  "bucket \<Rightarrow> handle \<Rightarrow> byte list \<Rightarrow> wm_error + bucket \<times> handle" where
  "bucket_CreateBucketIfNotExists ns h key =
     (case lookupB ns h of
        None \<Rightarrow> Inl (Crash NilPointerDereference)
      | Some b \<Rightarrow>
          if key = [] then Inl (WalletDb ErrBucketNameRequired)
          else (case map_of b key of
                  Some (Bkt _) \<Rightarrow> Inr (ns, h @ [key])
                | Some (Val _) \<Rightarrow> Inl (WalletDb ErrIncompatibleValue)
                | None \<Rightarrow> Inr (modifyB (AList.update key (Bkt [])) ns h, h @ [key])))"

definition bucket_DeleteNestedBucket :: "bucket \<Rightarrow> handle \<Rightarrow> byte list \<Rightarrow> wm_error + bucket" where
  "bucket_DeleteNestedBucket ns h key =
     (case lookupB ns h of
        None \<Rightarrow> Inl (Crash NilPointerDereference)
      | Some b \<Rightarrow>
          (case map_of b key of
             Some (Bkt _) \<Rightarrow> Inr (modifyB (AList.delete key) ns h)
           | Some (Val _) \<Rightarrow> Inl (WalletDb ErrIncompatibleValue)
           | None \<Rightarrow> Inl (WalletDb ErrBucketNotFound)))"

text \<open>
  The pairs \<open>ForEach\<close> passes to its callback: every key of the bucket as it is when the
  iteration starts, with its value, or with nil when the key names a nested bucket.
\<close>

definition forEachPairs :: "bucket \<Rightarrow> (byte list \<times> byte list option) list" where
  "forEachPairs b = map (\<lambda>(k, e). (k, case e of Val v \<Rightarrow> Some v | Bkt _ \<Rightarrow> None)) b"

text \<open>
  \<open>maybeConvertDbError\<close>: a \<open>ManagerError\<close> is returned as it is, any other error is wrapped
  in a \<open>ManagerError\<close> of code \<open>ErrDatabase\<close>.  A panic does not pass through it.
\<close>

definition dbErrorText :: "db_error \<Rightarrow> string" where
  "dbErrorText e =
     (case e of
        ErrBucketNotFound \<Rightarrow> ''bucket not found''
      | ErrBucketExists \<Rightarrow> ''bucket already exists''
      | ErrBucketNameRequired \<Rightarrow> ''bucket name required''
      | ErrKeyRequired \<Rightarrow> ''key required''
      | ErrIncompatibleValue \<Rightarrow> ''incompatible value'')"

definition maybeConvertDbError :: "wm_error \<Rightarrow> wm_error" where
  "maybeConvertDbError ee =
     (case ee of
        ManagerError c s \<Rightarrow> ee
      | WalletDb e \<Rightarrow> ManagerError ErrDatabase (dbErrorText e)
      | SegwitAddressExists \<Rightarrow> ManagerError ErrDatabase ''segwit address exists in wallet''
      | Crash p \<Rightarrow> ee)"

text \<open>Bucket and key names.\<close>

definition scopeSchemaBucketName :: "byte list" where
  "scopeSchemaBucketName = map (of_nat \<circ> of_char) ''scope-schema''"
definition scopeBucketName :: "byte list" where
  "scopeBucketName = map (of_nat \<circ> of_char) ''scope''"
definition coinTypePrivKeyName :: "byte list" where
  "coinTypePrivKeyName = map (of_nat \<circ> of_char) ''ctpriv''"
definition coinTypePubKeyName :: "byte list" where
  "coinTypePubKeyName = map (of_nat \<circ> of_char) ''ctpub''"
definition acctBucketName :: "byte list" where
  "acctBucketName = map (of_nat \<circ> of_char) ''acct''"
definition addrBucketName :: "byte list" where
  "addrBucketName = map (of_nat \<circ> of_char) ''addr''"
definition addrAcctIdxBucketName :: "byte list" where
  "addrAcctIdxBucketName = map (of_nat \<circ> of_char) ''addracctidx''"
definition acctNameIdxBucketName :: "byte list" where
  "acctNameIdxBucketName = map (of_nat \<circ> of_char) ''acctnameidx''"
definition acctIDIdxBucketName :: "byte list" where
  "acctIDIdxBucketName = map (of_nat \<circ> of_char) ''acctididx''"
definition usedAddrBucketName :: "byte list" where
  "usedAddrBucketName = map (of_nat \<circ> of_char) ''usedaddrs''"
definition metaBucketName :: "byte list" where
  "metaBucketName = map (of_nat \<circ> of_char) ''meta''"
definition lastAccountName :: "byte list" where
  "lastAccountName = map (of_nat \<circ> of_char) ''lastaccount''"
definition mainBucketName :: "byte list" where
  "mainBucketName = map (of_nat \<circ> of_char) ''main''"
definition masterHDPrivName :: "byte list" where
  "masterHDPrivName = map (of_nat \<circ> of_char) ''mhdpriv''"
definition masterHDPubName :: "byte list" where
  "masterHDPubName = map (of_nat \<circ> of_char) ''mhdpub''"
definition mgrVersionName :: "byte list" where
  "mgrVersionName = map (of_nat \<circ> of_char) ''mgrver''"
definition masterPrivKeyName :: "byte list" where
  "masterPrivKeyName = map (of_nat \<circ> of_char) ''mpriv''"
definition masterPubKeyName :: "byte list" where
  "masterPubKeyName = map (of_nat \<circ> of_char) ''mpub''"
definition cryptoPrivKeyName :: "byte list" where
  "cryptoPrivKeyName = map (of_nat \<circ> of_char) ''cpriv''"
definition cryptoPubKeyName :: "byte list" where
  "cryptoPubKeyName = map (of_nat \<circ> of_char) ''cpub''"
definition cryptoScriptKeyName :: "byte list" where
  "cryptoScriptKeyName = map (of_nat \<circ> of_char) ''cscript''"

subsection \<open>Rows and their serialization\<close>

text \<open>
  Little-endian integers: \<open>le_bytes n v\<close> are the \<open>n\<close> low bytes of \<open>v\<close>, \<open>le_nat\<close> reads them
  back.  \<open>goSlice s a b\<close> is the slice expression \<open>s[a:b]\<close> of a slice whose capacity is its
  length (as the values handed out by the database are): \<open>None\<close> where Go panics.  The
  bounds of the source are \<open>uint32\<close> sums, which wrap; the model computes them as words.
\<close>

fun le_bytes :: "nat \<Rightarrow> nat \<Rightarrow> byte list" where
  "le_bytes 0 v = []"
| "le_bytes (Suc n) v = of_nat (v mod 256) # le_bytes n (v div 256)"

fun le_nat :: "byte list \<Rightarrow> nat" where
  "le_nat [] = 0"
| "le_nat (b # bs) = unat b + 256 * le_nat bs"

definition uint32ToBytes :: "32 word \<Rightarrow> byte list" where
  "uint32ToBytes number = le_bytes 4 (unat number)"

definition PutUint64 :: "64 word \<Rightarrow> byte list" where
  "PutUint64 number = le_bytes 8 (unat number)"

definition Uint32 :: "byte list \<Rightarrow> 32 word" where
  "Uint32 bs = of_nat (le_nat (take 4 bs))"

definition Uint64 :: "byte list \<Rightarrow> 64 word" where
  "Uint64 bs = of_nat (le_nat (take 8 bs))"

definition goSlice :: "byte list \<Rightarrow> nat \<Rightarrow> nat \<Rightarrow> byte list option" where
  "goSlice s a b = (if a \<le> b \<and> b \<le> length s then Some (take (b - a) (drop a s)) else None)"

text \<open>Reading a length-prefixed field at a \<open>uint32\<close> offset: the field and the offset behind it.\<close>

definition readUint32At :: "byte list \<Rightarrow> 32 word \<Rightarrow> (32 word \<times> 32 word) option" where
  "readUint32At s offset =
     (case goSlice s (unat offset) (unat (offset + 4)) of
        None \<Rightarrow> None
      | Some bs \<Rightarrow> Some (Uint32 bs, offset + 4))"

definition readBytesAt :: "byte list \<Rightarrow> 32 word \<Rightarrow> 32 word \<Rightarrow> (byte list \<times> 32 word) option" where
  "readBytesAt s offset n =
     (case goSlice s (unat offset) (unat (offset + n)) of
        None \<Rightarrow> None
      | Some bs \<Rightarrow> Some (bs, offset + n))"

definition accountDefault :: byte where "accountDefault = 0"
definition adtChain :: byte where "adtChain = 0"
definition adtImport :: byte where "adtImport = 1"
definition adtScript :: byte where "adtScript = 2"

record dbAccountRow =
  acctType :: byte
  rawData :: "byte list"

record dbDefaultAccountRow = dbAccountRow +
  pubKeyEncrypted :: "byte list"
  privKeyEncrypted :: "byte list"
  nextExternalIndex :: "32 word"
  nextInternalIndex :: "32 word"
  name :: "byte list"

record dbAddressRow =
  addTime :: "64 word"
  addrRawData :: "byte list"
  account :: "32 word"
  syncStatus :: byte
  addrType :: byte

record dbImportedAddressRow = dbAddressRow +
  encryptedPubKey :: "byte list"
  encryptedPrivKey :: "byte list"

record dbScriptAddressRow = dbAddressRow +
  encryptedHash :: "byte list"
  encryptedScript :: "byte list"

text \<open>
  The deserializers of account rows take the account id as well, for the text of the error;
  the model leaves it out.  The serializers allocate a buffer of the summed length and copy the fields into it; for
  fields whose lengths sum to less than \<open>2^32\<close> that is the concatenation below.  The
  functions modelled here call them on slices of a stored row only, which are that short.
\<close>

definition serializeAccountRow :: "dbAccountRow \<Rightarrow> byte list" where
  "serializeAccountRow row =
     acctType row # uint32ToBytes (of_nat (length (rawData row))) @ rawData row"

definition serializeDefaultAccountRow ::
  "byte list \<Rightarrow> byte list \<Rightarrow> 32 word \<Rightarrow> 32 word \<Rightarrow> byte list \<Rightarrow> byte list" where
  "serializeDefaultAccountRow encryptedPubKey' encryptedPrivKey' nextExternalIndex'
       nextInternalIndex' name' =
     uint32ToBytes (of_nat (length encryptedPubKey')) @ encryptedPubKey'
     @ uint32ToBytes (of_nat (length encryptedPrivKey')) @ encryptedPrivKey'
     @ uint32ToBytes nextExternalIndex' @ uint32ToBytes nextInternalIndex'
     @ uint32ToBytes (of_nat (length name')) @ name'"

definition serializeAddressRow :: "dbAddressRow \<Rightarrow> byte list" where
  "serializeAddressRow row =
     addrType row # uint32ToBytes (account row) @ PutUint64 (addTime row)
     @ syncStatus row # uint32ToBytes (of_nat (length (addrRawData row))) @ addrRawData row"

definition serializeImportedAddress :: "byte list \<Rightarrow> byte list \<Rightarrow> byte list" where
  "serializeImportedAddress encryptedPubKey' encryptedPrivKey' =
     uint32ToBytes (of_nat (length encryptedPubKey')) @ encryptedPubKey'
     @ uint32ToBytes (of_nat (length encryptedPrivKey')) @ encryptedPrivKey'"

definition serializeScriptAddress :: "byte list \<Rightarrow> byte list \<Rightarrow> byte list" where
  "serializeScriptAddress encryptedHash' encryptedScript' =
     uint32ToBytes (of_nat (length encryptedHash')) @ encryptedHash'
     @ uint32ToBytes (of_nat (length encryptedScript')) @ encryptedScript'"

definition deserializeAccountRow :: "byte list \<Rightarrow> wm_error + dbAccountRow" where
  "deserializeAccountRow serializedAccount =
     (if length serializedAccount < 5
      then Inl (ManagerError ErrDatabase ''malformed serialized account for key'')
      else
        (let rdlen = Uint32 (take 4 (drop 1 serializedAccount))
         in case goSlice serializedAccount 5 (unat (5 + rdlen)) of
              None \<Rightarrow> Inl (Crash SliceBoundsOutOfRange)
            | Some raw \<Rightarrow> Inr \<lparr> acctType = serializedAccount ! 0, rawData = raw \<rparr>))"

definition deserializeDefaultAccountRow :: "dbAccountRow \<Rightarrow> wm_error + dbDefaultAccountRow" where
  "deserializeDefaultAccountRow row =
     (if length (rawData row) < 20
      then Inl (ManagerError ErrDatabase ''malformed serialized bip0044 account for key'')
      else
        (case
           (case readUint32At (rawData row) 0 of None \<Rightarrow> None
            | Some (pubLen, o1) \<Rightarrow>
            (case readBytesAt (rawData row) o1 pubLen of None \<Rightarrow> None
             | Some (pub, o2) \<Rightarrow>
             (case readUint32At (rawData row) o2 of None \<Rightarrow> None
              | Some (privLen, o3) \<Rightarrow>
              (case readBytesAt (rawData row) o3 privLen of None \<Rightarrow> None
               | Some (priv, o4) \<Rightarrow>
               (case readUint32At (rawData row) o4 of None \<Rightarrow> None
                | Some (nextExt, o5) \<Rightarrow>
                (case readUint32At (rawData row) o5 of None \<Rightarrow> None
                 | Some (nextInt, o6) \<Rightarrow>
                 (case readUint32At (rawData row) o6 of None \<Rightarrow> None
                  | Some (nameLen, o7) \<Rightarrow>
                  (case readBytesAt (rawData row) o7 nameLen of None \<Rightarrow> None
                   | Some (nm, o8) \<Rightarrow>
                       Some \<lparr> acctType = acctType row, rawData = rawData row,
                              pubKeyEncrypted = pub, privKeyEncrypted = priv,
                              nextExternalIndex = nextExt, nextInternalIndex = nextInt,
                              name = nm \<rparr>)))))))) of
           None \<Rightarrow> Inl (Crash SliceBoundsOutOfRange)
         | Some r \<Rightarrow> Inr r))"

definition deserializeAddressRow :: "byte list \<Rightarrow> wm_error + dbAddressRow" where
  "deserializeAddressRow serializedAddress =
     (if length serializedAddress < 18
      then Inl (ManagerError ErrDatabase ''malformed serialized address'')
      else
        (let rdlen = Uint32 (take 4 (drop 14 serializedAddress))
         in case goSlice serializedAddress 18 (unat (18 + rdlen)) of
              None \<Rightarrow> Inl (Crash SliceBoundsOutOfRange)
            | Some raw \<Rightarrow>
                Inr \<lparr> addTime = Uint64 (take 8 (drop 5 serializedAddress)),
                      addrRawData = raw,
                      account = Uint32 (take 4 (drop 1 serializedAddress)),
                      syncStatus = serializedAddress ! 13,
                      addrType = serializedAddress ! 0 \<rparr>))"

definition deserializeImportedAddress :: "dbAddressRow \<Rightarrow> wm_error + dbImportedAddressRow" where
  "deserializeImportedAddress row =
     (if length (addrRawData row) < 8
      then Inl (ManagerError ErrDatabase ''malformed serialized imported address'')
      else
        (case
           (case readUint32At (addrRawData row) 0 of None \<Rightarrow> None
            | Some (pubLen, o1) \<Rightarrow>
            (case readBytesAt (addrRawData row) o1 pubLen of None \<Rightarrow> None
             | Some (pub, o2) \<Rightarrow>
             (case readUint32At (addrRawData row) o2 of None \<Rightarrow> None
              | Some (privLen, o3) \<Rightarrow>
              (case readBytesAt (addrRawData row) o3 privLen of None \<Rightarrow> None
               | Some (priv, o4) \<Rightarrow>
                   Some \<lparr> addTime = addTime row, addrRawData = addrRawData row,
                          account = account row, syncStatus = syncStatus row,
                          addrType = addrType row,
                          encryptedPubKey = pub, encryptedPrivKey = priv \<rparr>)))) of
           None \<Rightarrow> Inl (Crash SliceBoundsOutOfRange)
         | Some r \<Rightarrow> Inr r))"

definition deserializeScriptAddress :: "dbAddressRow \<Rightarrow> wm_error + dbScriptAddressRow" where
  "deserializeScriptAddress row =
     (if length (addrRawData row) < 8
      then Inl (ManagerError ErrDatabase ''malformed serialized script address'')
      else
        (case
           (case readUint32At (addrRawData row) 0 of None \<Rightarrow> None
            | Some (hashLen, o1) \<Rightarrow>
            (case readBytesAt (addrRawData row) o1 hashLen of None \<Rightarrow> None
             | Some (hsh, o2) \<Rightarrow>
             (case readUint32At (addrRawData row) o2 of None \<Rightarrow> None
              | Some (scriptLen, o3) \<Rightarrow>
              (case readBytesAt (addrRawData row) o3 scriptLen of None \<Rightarrow> None
               | Some (scr, o4) \<Rightarrow>
                   Some \<lparr> addTime = addTime row, addrRawData = addrRawData row,
                          account = account row, syncStatus = syncStatus row,
                          addrType = addrType row,
                          encryptedHash = hsh, encryptedScript = scr \<rparr>)))) of
           None \<Rightarrow> Inl (Crash SliceBoundsOutOfRange)
         | Some r \<Rightarrow> Inr r))"

subsection \<open>deletePrivateKeys\<close>

text \<open>
  An error returned by a bucket operation is replaced by a \<open>ManagerError\<close> with the text of
  the call site; a panic goes on as it is.
\<close>

definition dbFailure :: "string \<Rightarrow> wm_error \<Rightarrow> wm_error" where
  "dbFailure str e = (case e of Crash p \<Rightarrow> Crash p | _ \<Rightarrow> ManagerError ErrDatabase str)"

text \<open>
  The callbacks of the three \<open>ForEach\<close> loops of \<open>deletePrivateKeys\<close>, each as a function over
  the pairs the loop visits, with the handle of the bucket the loop ranges over.  A loop stops
  at the first error.
\<close>

fun deleteAccountKeys ::
  "handle \<Rightarrow> (byte list \<times> byte list option) list \<Rightarrow> bucket \<Rightarrow> wm_error option \<times> bucket" where
  "deleteAccountKeys h [] ns = (None, ns)"
| "deleteAccountKeys h ((k, v) # rest) ns =
     (case v of
        None \<Rightarrow> deleteAccountKeys h rest ns
      | Some sv \<Rightarrow>
          (case deserializeAccountRow sv of
             Inl e \<Rightarrow> (Some e, ns)
           | Inr row \<Rightarrow>
               if acctType row = accountDefault then
                 (case deserializeDefaultAccountRow row of
                    Inl e \<Rightarrow> (Some e, ns)
                  | Inr arow \<Rightarrow>
                      (case bucket_Put ns h k
                              (serializeAccountRow
                                (row\<lparr>rawData := serializeDefaultAccountRow (pubKeyEncrypted arow) []
                                        (nextExternalIndex arow) (nextInternalIndex arow)
                                        (name arow)\<rparr>)) of
                         Inl e \<Rightarrow> (Some (dbFailure ''failed to delete account private key'' e), ns)
                       | Inr ns' \<Rightarrow> deleteAccountKeys h rest ns'))
               else deleteAccountKeys h rest ns))"

fun deleteAddressKeys ::
  "handle \<Rightarrow> (byte list \<times> byte list option) list \<Rightarrow> bucket \<Rightarrow> wm_error option \<times> bucket" where
  "deleteAddressKeys h [] ns = (None, ns)"
| "deleteAddressKeys h ((k, v) # rest) ns =
     (case v of
        None \<Rightarrow> deleteAddressKeys h rest ns
      | Some sv \<Rightarrow>
          (case deserializeAddressRow sv of
             Inl e \<Rightarrow> (Some e, ns)
           | Inr row \<Rightarrow>
               if addrType row = adtImport then
                 (case deserializeImportedAddress row of
                    Inl e \<Rightarrow> (Some e, ns)
                  | Inr irow \<Rightarrow>
                      (case bucket_Put ns h k
                              (serializeAddressRow
                                (row\<lparr>addrRawData :=
                                       serializeImportedAddress (encryptedPubKey irow) []\<rparr>)) of
                         Inl e \<Rightarrow> (Some (dbFailure ''failed to delete imported private key'' e), ns)
                       | Inr ns' \<Rightarrow> deleteAddressKeys h rest ns'))
               else if addrType row = adtScript then
                 (case deserializeScriptAddress row of
                    Inl e \<Rightarrow> (Some e, ns)
                  | Inr srow \<Rightarrow>
                      (case bucket_Put ns h k
                              (serializeAddressRow
                                (row\<lparr>addrRawData :=
                                       serializeScriptAddress (encryptedHash srow) []\<rparr>)) of
                         Inl e \<Rightarrow> (Some (dbFailure ''failed to delete imported script'' e), ns)
                       | Inr ns' \<Rightarrow> deleteAddressKeys h rest ns'))
               else deleteAddressKeys h rest ns))"

text \<open>The pairs of the bucket behind a handle; the iteration over a nil handle panics.\<close>

definition bucket_ForEach ::
  "bucket \<Rightarrow> handle option \<Rightarrow> wm_error + (byte list \<times> byte list option) list" where
  "bucket_ForEach ns h =
     (case h of
        None \<Rightarrow> Inl (Crash NilPointerDereference)
      | Some p \<Rightarrow>
          (case lookupB ns p of
             None \<Rightarrow> Inl (Crash NilPointerDereference)
           | Some b \<Rightarrow> Inr (forEachPairs b)))"

fun deleteScopeKeys ::
  "handle \<Rightarrow> (byte list \<times> byte list option) list \<Rightarrow> bucket \<Rightarrow> wm_error option \<times> bucket" where
  "deleteScopeKeys scopeBucket [] ns = (None, ns)"
| "deleteScopeKeys scopeBucket ((scopeKey, v) # rest) ns =
     (if length scopeKey \<noteq> 8 then deleteScopeKeys scopeBucket rest ns
      else
        (case NestedReadWriteBucket ns scopeBucket scopeKey of
           None \<Rightarrow> (Some (Crash NilPointerDereference), ns)
         | Some managerScopeBucket \<Rightarrow>
             (case bucket_Delete ns managerScopeBucket coinTypePrivKeyName of
                Inl e \<Rightarrow> (Some (dbFailure ''failed to delete cointype private key'' e), ns)
              | Inr ns1 \<Rightarrow>
                  (case bucket_ForEach ns1
                          (NestedReadWriteBucket ns1 managerScopeBucket acctBucketName) of
                     Inl e \<Rightarrow> (Some e, ns1)
                   | Inr accounts \<Rightarrow>
                       (case deleteAccountKeys (managerScopeBucket @ [acctBucketName])
                               accounts ns1 of
                          (Some e, ns2) \<Rightarrow> (Some (maybeConvertDbError e), ns2)
                        | (None, ns2) \<Rightarrow>
                            (case bucket_ForEach ns2
                                    (NestedReadWriteBucket ns2 managerScopeBucket addrBucketName) of
                               Inl e \<Rightarrow> (Some e, ns2)
                             | Inr addresses \<Rightarrow>
                                 (case deleteAddressKeys (managerScopeBucket @ [addrBucketName])
                                         addresses ns2 of
                                    (Some e, ns3) \<Rightarrow> (Some (maybeConvertDbError e), ns3)
                                  | (None, ns3) \<Rightarrow> deleteScopeKeys scopeBucket rest ns3)))))))"

text \<open>
  \<open>deletePrivateKeys\<close>.  The result is the error, if any, and the namespace as the call leaves
  it (the transaction around the call decides whether that is kept).
\<close>

definition deletePrivateKeys :: "bucket \<Rightarrow> wm_error option \<times> bucket" where
  "deletePrivateKeys ns =
     (case NestedReadWriteBucket ns [] mainBucketName of
        None \<Rightarrow> (Some (Crash NilPointerDereference), ns)
      | Some bucket \<Rightarrow>
      (case bucket_Delete ns bucket masterPrivKeyName of
         Inl e \<Rightarrow> (Some (dbFailure ''failed to delete master private key parameters'' e), ns)
       | Inr ns1 \<Rightarrow>
       (case bucket_Delete ns1 bucket cryptoPrivKeyName of
          Inl e \<Rightarrow> (Some (dbFailure ''failed to delete crypto private key'' e), ns1)
        | Inr ns2 \<Rightarrow>
        (case bucket_Delete ns2 bucket cryptoScriptKeyName of
           Inl e \<Rightarrow> (Some (dbFailure ''failed to delete crypto script key'' e), ns2)
         | Inr ns3 \<Rightarrow>
         (case bucket_Delete ns3 bucket masterHDPrivName of
            Inl e \<Rightarrow> (Some (dbFailure ''failed to delete master HD priv key'' e), ns3)
          | Inr ns4 \<Rightarrow>
          (case bucket_ForEach ns4 (NestedReadWriteBucket ns4 [] scopeBucketName) of
             Inl e \<Rightarrow> (Some e, ns4)
           | Inr scopes \<Rightarrow>
               (case deleteScopeKeys [scopeBucketName] scopes ns4 of
                  (Some e, ns5) \<Rightarrow> (Some (maybeConvertDbError e), ns5)
                | (None, ns5) \<Rightarrow> (None, ns5))))))))"

text \<open>
  The store without its private material, in the words of the specification.  \<open>clearMain\<close>
  drops the master private key parameters, the crypto private and script keys and the master
  HD private key from the main bucket.  \<open>clearAccountRow\<close> and \<open>clearAddressRow\<close> are a row
  with its private slot emptied: the private key of a default account row and of an imported
  address row, the script of a script address row; any other row is left as it is.
  \<open>clearScope\<close> drops the coin-type private key of a scope and clears the rows of its account
  and address buckets, and \<open>clearScopes\<close> does so for every scope (a key of 8 bytes).
\<close>

definition clearMain :: "bucket \<Rightarrow> bucket" where
  "clearMain b =
     AList.delete masterHDPrivName (AList.delete cryptoScriptKeyName
       (AList.delete cryptoPrivKeyName (AList.delete masterPrivKeyName b)))"

definition clearAccountRow :: "byte list \<Rightarrow> byte list" where
  "clearAccountRow sv =
     (case deserializeAccountRow sv of
        Inl e \<Rightarrow> sv
      | Inr row \<Rightarrow>
          if acctType row = accountDefault then
            (case deserializeDefaultAccountRow row of
               Inl e \<Rightarrow> sv
             | Inr arow \<Rightarrow>
                 serializeAccountRow
                   (row\<lparr>rawData := serializeDefaultAccountRow (pubKeyEncrypted arow) []
                           (nextExternalIndex arow) (nextInternalIndex arow) (name arow)\<rparr>))
          else sv)"

definition clearAddressRow :: "byte list \<Rightarrow> byte list" where
  "clearAddressRow sv =
     (case deserializeAddressRow sv of
        Inl e \<Rightarrow> sv
      | Inr row \<Rightarrow>
          if addrType row = adtImport then
            (case deserializeImportedAddress row of
               Inl e \<Rightarrow> sv
             | Inr irow \<Rightarrow>
                 serializeAddressRow
                   (row\<lparr>addrRawData := serializeImportedAddress (encryptedPubKey irow) []\<rparr>))
          else if addrType row = adtScript then
            (case deserializeScriptAddress row of
               Inl e \<Rightarrow> sv
             | Inr srow \<Rightarrow>
                 serializeAddressRow
                   (row\<lparr>addrRawData := serializeScriptAddress (encryptedHash srow) []\<rparr>))
          else sv)"

definition mapValues :: "(byte list \<Rightarrow> byte list) \<Rightarrow> bucket \<Rightarrow> bucket" where
  "mapValues f b = map (\<lambda>(k, e). (k, case e of Val v \<Rightarrow> Val (f v) | Bkt x \<Rightarrow> Bkt x)) b"

definition mapNested :: "byte list \<Rightarrow> (bucket \<Rightarrow> bucket) \<Rightarrow> bucket \<Rightarrow> bucket" where
  "mapNested key f b =
     (case map_of b key of Some (Bkt x) \<Rightarrow> AList.update key (Bkt (f x)) b | _ \<Rightarrow> b)"

definition clearScope :: "bucket \<Rightarrow> bucket" where
  "clearScope b =
     mapNested addrBucketName (mapValues clearAddressRow)
       (mapNested acctBucketName (mapValues clearAccountRow)
         (AList.delete coinTypePrivKeyName b))"

definition clearScopes :: "bucket \<Rightarrow> bucket" where
  "clearScopes sb =
     map (\<lambda>(scopeKey, e).
            (scopeKey, case e of Bkt b \<Rightarrow> if length scopeKey = 8 then Bkt (clearScope b) else Bkt b
                       | Val v \<Rightarrow> Val v)) sb"

definition withoutPrivateKeys :: "bucket \<Rightarrow> bucket" where
  "withoutPrivateKeys ns =
     mapNested scopeBucketName clearScopes (mapNested mainBucketName clearMain ns)"

text \<open>
  What \<open>deletePrivateKeys\<close> relies on.  The keys of a bucket are distinct and not empty (the
  database keeps them so).  The namespace has its main bucket, in which none of the four
  private keys names a bucket, and its scope bucket; every key of 8 bytes in the scope bucket
  names a scope bucket, in which the coin-type private key does not name a bucket, with an
  account and an address bucket whose rows can be read.
\<close>

definition keys_ok :: "bucket \<Rightarrow> bool" where
  "keys_ok b = (distinct (map fst b) \<and> [] \<notin> set (map fst b))"

definition not_bucket :: "bucket \<Rightarrow> byte list \<Rightarrow> bool" where
  "not_bucket b key = (case map_of b key of Some (Bkt x) \<Rightarrow> False | _ \<Rightarrow> True)"

definition accountRowReadable :: "byte list \<Rightarrow> bool" where
  "accountRowReadable sv =
     (case deserializeAccountRow sv of
        Inl e \<Rightarrow> False
      | Inr row \<Rightarrow> acctType row = accountDefault \<longrightarrow> \<not> isl (deserializeDefaultAccountRow row))"

definition addressRowReadable :: "byte list \<Rightarrow> bool" where
  "addressRowReadable sv =
     (case deserializeAddressRow sv of
        Inl e \<Rightarrow> False
      | Inr row \<Rightarrow>
          (addrType row = adtImport \<longrightarrow> \<not> isl (deserializeImportedAddress row))
          \<and> (addrType row = adtScript \<longrightarrow> \<not> isl (deserializeScriptAddress row)))"

definition rows_ok :: "(byte list \<Rightarrow> bool) \<Rightarrow> bucket \<Rightarrow> bool" where
  "rows_ok readable b =
     (keys_ok b \<and> list_all (\<lambda>(k, e). case e of Val v \<Rightarrow> readable v | Bkt x \<Rightarrow> True) b)"

definition scope_ok :: "bucket \<Rightarrow> bool" where
  "scope_ok b =
     (not_bucket b coinTypePrivKeyName
      \<and> (case map_of b acctBucketName of
            Some (Bkt a) \<Rightarrow> rows_ok accountRowReadable a | _ \<Rightarrow> False)
      \<and> (case map_of b addrBucketName of
            Some (Bkt a) \<Rightarrow> rows_ok addressRowReadable a | _ \<Rightarrow> False))"

definition scopes_ok :: "bucket \<Rightarrow> bool" where
  "scopes_ok sb =
     (keys_ok sb
      \<and> list_all (\<lambda>(scopeKey, e). length scopeKey = 8 \<longrightarrow>
                    (case e of Bkt b \<Rightarrow> scope_ok b | Val v \<Rightarrow> False)) sb)"

definition wallet_ok :: "bucket \<Rightarrow> bool" where
  "wallet_ok ns =
     ((case map_of ns mainBucketName of
         Some (Bkt m) \<Rightarrow>
           not_bucket m masterPrivKeyName \<and> not_bucket m cryptoPrivKeyName
           \<and> not_bucket m cryptoScriptKeyName \<and> not_bucket m masterHDPrivName
       | _ \<Rightarrow> False)
      \<and> (case map_of ns scopeBucketName of Some (Bkt sb) \<Rightarrow> scopes_ok sb | _ \<Rightarrow> False))"

subsection \<open>What the rows keep\<close>

text \<open>
  A row before and after its private slot is emptied, read back with the deserializers: the
  later row is of the same type and carries the same public fields, and its private slot is
  empty; a row without a private slot is the same row.
\<close>

definition accountRowCleared :: "byte list \<Rightarrow> byte list \<Rightarrow> bool" where
  "accountRowCleared sv sv' =
     (case deserializeAccountRow sv of
        Inl e \<Rightarrow> False
      | Inr row \<Rightarrow>
          if acctType row = accountDefault then
            (case (deserializeDefaultAccountRow row, deserializeAccountRow sv') of
               (Inr arow, Inr row') \<Rightarrow>
                 acctType row' = accountDefault
                 \<and> (case deserializeDefaultAccountRow row' of
                        Inl e \<Rightarrow> False
                      | Inr arow' \<Rightarrow>
                          pubKeyEncrypted arow' = pubKeyEncrypted arow
                          \<and> privKeyEncrypted arow' = []
                          \<and> nextExternalIndex arow' = nextExternalIndex arow
                          \<and> nextInternalIndex arow' = nextInternalIndex arow
                          \<and> name arow' = name arow)
             | _ \<Rightarrow> False)
          else sv' = sv)"

definition sameAddress :: "dbAddressRow \<Rightarrow> dbAddressRow \<Rightarrow> bool" where
  "sameAddress row row' =
     (addrType row' = addrType row \<and> account row' = account row
      \<and> addTime row' = addTime row \<and> syncStatus row' = syncStatus row)"

definition addressRowCleared :: "byte list \<Rightarrow> byte list \<Rightarrow> bool" where
  "addressRowCleared sv sv' =
     (case deserializeAddressRow sv of
        Inl e \<Rightarrow> False
      | Inr row \<Rightarrow>
          if addrType row = adtImport then
            (case (deserializeImportedAddress row, deserializeAddressRow sv') of
               (Inr irow, Inr row') \<Rightarrow>
                 sameAddress row row'
                 \<and> (case deserializeImportedAddress row' of
                        Inl e \<Rightarrow> False
                      | Inr irow' \<Rightarrow>
                          encryptedPubKey irow' = encryptedPubKey irow
                          \<and> encryptedPrivKey irow' = [])
             | _ \<Rightarrow> False)
          else if addrType row = adtScript then
            (case (deserializeScriptAddress row, deserializeAddressRow sv') of
               (Inr srow, Inr row') \<Rightarrow>
                 sameAddress row row'
                 \<and> (case deserializeScriptAddress row' of
                        Inl e \<Rightarrow> False
                      | Inr srow' \<Rightarrow>
                          encryptedHash srow' = encryptedHash srow
                          \<and> encryptedScript srow' = [])
             | _ \<Rightarrow> False)
          else sv' = sv)"

text \<open>
  A small wallet: the main bucket with the master, crypto and HD keys, one scope with its
  coin-type keys, a default account, a chained, an imported and a script address and a used
  address, and the manager version; and the same wallet as a watching-only one.
\<close>

definition account_row_full :: "byte list" where
  "account_row_full =
     serializeAccountRow \<lparr>acctType = accountDefault,
       rawData = serializeDefaultAccountRow [1, 2] [3, 4, 5] 7 9 [110]\<rparr>"

definition account_row_watching :: "byte list" where
  "account_row_watching =
     serializeAccountRow \<lparr>acctType = accountDefault,
       rawData = serializeDefaultAccountRow [1, 2] [] 7 9 [110]\<rparr>"

definition chain_row :: "byte list" where
  "chain_row = serializeAddressRow \<lparr>addTime = 1000, addrRawData = [0, 0, 0, 0, 5, 0, 0, 0],
       account = 0, syncStatus = 0, addrType = adtChain\<rparr>"

definition imported_row_full :: "byte list" where
  "imported_row_full = serializeAddressRow \<lparr>addTime = 1001,
       addrRawData = serializeImportedAddress [6, 7] [8, 9], account = 2147483647,
       syncStatus = 0, addrType = adtImport\<rparr>"

definition imported_row_watching :: "byte list" where
  "imported_row_watching = serializeAddressRow \<lparr>addTime = 1001,
       addrRawData = serializeImportedAddress [6, 7] [], account = 2147483647,
       syncStatus = 0, addrType = adtImport\<rparr>"

definition script_row_full :: "byte list" where
  "script_row_full = serializeAddressRow \<lparr>addTime = 1002,
       addrRawData = serializeScriptAddress [10, 11] [12, 13, 14], account = 2147483647,
       syncStatus = 1, addrType = adtScript\<rparr>"

definition script_row_watching :: "byte list" where
  "script_row_watching = serializeAddressRow \<lparr>addTime = 1002,
       addrRawData = serializeScriptAddress [10, 11] [], account = 2147483647,
       syncStatus = 1, addrType = adtScript\<rparr>"

definition scope_key_44 :: "byte list" where
  "scope_key_44 = uint32ToBytes 44 @ uint32ToBytes 0"

definition wallet_full :: bucket where
  "wallet_full =
     [(mainBucketName, Bkt [(masterPrivKeyName, Val [1]), (masterPubKeyName, Val [2]),
                            (cryptoPrivKeyName, Val [3]), (cryptoPubKeyName, Val [4]),
                            (cryptoScriptKeyName, Val [5]), (masterHDPrivName, Val [6]),
                            (masterHDPubName, Val [7])]),
      (scopeBucketName,
         Bkt [(scope_key_44,
               Bkt [(coinTypePrivKeyName, Val [8]), (coinTypePubKeyName, Val [9]),
                    (acctBucketName, Bkt [([0, 0, 0, 0], Val account_row_full)]),
                    (addrBucketName, Bkt [([20], Val chain_row), ([21], Val imported_row_full),
                                          ([22], Val script_row_full)]),
                    (usedAddrBucketName, Bkt [([20], Val [0])])])]),
      (mgrVersionName, Val (uint32ToBytes 5))]"

definition wallet_watching :: bucket where
  "wallet_watching =
     [(mainBucketName, Bkt [(masterPubKeyName, Val [2]), (cryptoPubKeyName, Val [4]),
                            (masterHDPubName, Val [7])]),
      (scopeBucketName,
         Bkt [(scope_key_44,
               Bkt [(coinTypePubKeyName, Val [9]),
                    (acctBucketName, Bkt [([0, 0, 0, 0], Val account_row_watching)]),
                    (addrBucketName, Bkt [([20], Val chain_row), ([21], Val imported_row_watching),
                                          ([22], Val script_row_watching)]),
                    (usedAddrBucketName, Bkt [([20], Val [0])])])]),
      (mgrVersionName, Val (uint32ToBytes 5))]"


section \<open>Voting-pool key validation (votingpool, claim C9)\<close>

text \<open>
  Modelled from the spec: the error codes of the voting pool that \<open>validate_and_decrypt\<close> can
  return (the package's sources are not among the files at hand, only its tests are).
\<close>

datatype vp_error = PrivatePublicMismatch | Crypto | KeyMismatch

text \<open>
  Modelled from the spec: the two kinds of key the pool's decryptor is asked for.  The
  decryptor itself (the address manager's key ring) is a parameter \<open>decrypt\<close>, which returns
  \<open>None\<close> when decryption fails, and so is \<open>neuter\<close>, which derives the public companion of a
  private key.
\<close>

datatype key_type = CKTPublic | CKTPrivate

text \<open>
  Modelled from the spec: one slot of \<open>validate_and_decrypt\<close>, missing from the files at hand.
  The public key is decrypted; an empty encrypted private key means that no private key is
  held for the slot; otherwise the private key is decrypted and its public companion must
  equal the decrypted public key.  The second component is the list of the decryptor calls
  made, in order.
\<close>

definition decrypt_slot ::
  "(key_type \<Rightarrow> byte list \<Rightarrow> byte list option) \<Rightarrow> (byte list \<Rightarrow> byte list)
   \<Rightarrow> byte list \<Rightarrow> byte list
   \<Rightarrow> (vp_error + byte list \<times> byte list option) \<times> (key_type \<times> byte list) list" where
  "decrypt_slot decrypt neuter enc_pub enc_priv =
     (case decrypt CKTPublic enc_pub of
        None \<Rightarrow> (Inl Crypto, [(CKTPublic, enc_pub)])
      | Some pub \<Rightarrow>
          if enc_priv = [] then (Inr (pub, None), [(CKTPublic, enc_pub)])
          else
            (case decrypt CKTPrivate enc_priv of
               None \<Rightarrow> (Inl Crypto, [(CKTPublic, enc_pub), (CKTPrivate, enc_priv)])
             | Some priv \<Rightarrow>
                 if neuter priv = pub
                 then (Inr (pub, Some priv), [(CKTPublic, enc_pub), (CKTPrivate, enc_priv)])
                 else (Inl KeyMismatch, [(CKTPublic, enc_pub), (CKTPrivate, enc_priv)])))"

text \<open>
  Modelled from the spec: the loop of \<open>validate_and_decrypt\<close> over the slots, missing from the
  files at hand; it stops at the first slot that fails.
\<close>

fun decrypt_slots ::
  "(key_type \<Rightarrow> byte list \<Rightarrow> byte list option) \<Rightarrow> (byte list \<Rightarrow> byte list)
   \<Rightarrow> (byte list \<times> byte list) list
   \<Rightarrow> (vp_error + (byte list \<times> byte list option) list) \<times> (key_type \<times> byte list) list" where
  "decrypt_slots decrypt neuter [] = (Inr [], [])"
| "decrypt_slots decrypt neuter ((enc_pub, enc_priv) # rest) =
     (case decrypt_slot decrypt neuter enc_pub enc_priv of
        (Inl e, calls) \<Rightarrow> (Inl e, calls)
      | (Inr k, calls) \<Rightarrow>
          (case decrypt_slots decrypt neuter rest of
             (Inl e, calls') \<Rightarrow> (Inl e, calls @ calls')
           | (Inr ks, calls') \<Rightarrow> (Inr (k # ks), calls @ calls')))"

text \<open>
  Modelled from the spec: \<open>validate_and_decrypt(enc_pubs, enc_privs)\<close>, missing from the files
  at hand.  The lengths are compared first, "else \<open>PrivatePublicMismatch\<close>"; then each key is
  decrypted, "a decryption failure yields \<open>Crypto\<close>", and "for every non-null private key"
  its public companion is compared with the decrypted public key, "mismatch yields
  \<open>KeyMismatch\<close>".  The result is paired with the decryptor calls made.
\<close>

definition validate_and_decrypt ::
  "(key_type \<Rightarrow> byte list \<Rightarrow> byte list option) \<Rightarrow> (byte list \<Rightarrow> byte list)
   \<Rightarrow> byte list list \<Rightarrow> byte list list
   \<Rightarrow> (vp_error + (byte list \<times> byte list option) list) \<times> (key_type \<times> byte list) list" where
  "validate_and_decrypt decrypt neuter enc_pubs enc_privs =
     (if length enc_pubs \<noteq> length enc_privs then (Inl PrivatePublicMismatch, [])
      else decrypt_slots decrypt neuter (zip enc_pubs enc_privs))"

text \<open>
  A toy key ring for evaluation: a ciphertext is the plaintext with a leading byte 1 (public)
  or 2 (private), and the public companion of a private key is the key with every byte
  incremented.
\<close>

definition toy_decrypt :: "key_type \<Rightarrow> byte list \<Rightarrow> byte list option" where
  "toy_decrypt kt c =
     (case c of [] \<Rightarrow> None
      | t # rest \<Rightarrow> if t = (case kt of CKTPublic \<Rightarrow> 1 | CKTPrivate \<Rightarrow> 2) then Some rest else None)"

definition toy_neuter :: "byte list \<Rightarrow> byte list" where
  "toy_neuter k = map (\<lambda>b. b + 1) k"

section \<open>Block header store (headerfs, claims C5 and C6)\<close>

text \<open>
  Modelled from the spec: the errors of the header store (the store's sources are not among
  the files at hand, only its tests are).
\<close>

datatype hs_error = NotFound | OutOfRange | IndexAheadOfFile

text \<open>
  Modelled from the spec: the width of a block header record on disk, "fixed-width (80 bytes)".
\<close>

definition stride :: nat where
  "stride = 80"

text \<open>
  Modelled from the spec: the state of a block header store, whose sources are missing: the
  header file, "a concatenation of 80-byte records in chain order, record \<open>h\<close> at offset
  \<open>(h - 1) * 80\<close> (genesis is implicit and not stored)", and the index, a "persistent mapping
  hash to height" together with the hash of the tip it advertises.  A header is its 80-byte
  record; the hash of a header is computed by the parameter \<open>H\<close> of the functions below.
\<close>

record headerStore =
  hs_file :: "byte list"
  hs_index :: "(hash \<times> nat) list"
  hs_tip :: hash

text \<open>
  Modelled from the spec: a store created on an empty directory, missing from the files at
  hand: no record in the file, and the index holds the genesis hash at height 0 as its tip.
\<close>

definition new_store :: "hash \<Rightarrow> headerStore" where
  "new_store genesis = \<lparr> hs_file = [], hs_index = [(genesis, 0)], hs_tip = genesis \<rparr>"

text \<open>
  Modelled from the spec: "the index's advertised tip height", the height the index maps the
  tip hash to.
\<close>

definition tip_height :: "headerStore \<Rightarrow> nat option" where
  "tip_height st = map_of (hs_index st) (hs_tip st)"

text \<open>
  Modelled from the spec: reading the record of height \<open>h\<close>, "record \<open>h\<close> at offset
  \<open>(h - 1) * 80\<close>", and the records of the heights from \<open>lo\<close> to \<open>hi\<close>.
\<close>

definition read_record :: "byte list \<Rightarrow> nat \<Rightarrow> byte list" where
  "read_record file h = take stride (drop ((h - 1) * stride) file)"

text \<open>
  Modelled from the spec: the read of \<open>n\<close> bytes at an offset of the header file, which the
  store's missing sources do for a range of records; it fails when the file ends before that.
\<close>

definition read_bulk :: "byte list \<Rightarrow> nat \<Rightarrow> nat \<Rightarrow> byte list option" where
  "read_bulk file off n =
     (if off + n \<le> length file then Some (take n (drop off file)) else None)"

text \<open>
  Modelled from the spec: the "decode" that follows a bulk read, missing from the files at
  hand: the bytes read are cut into \<open>n\<close> records of the record width.
\<close>

definition decode_records :: "nat \<Rightarrow> byte list \<Rightarrow> byte list list" where
  "decode_records n bs = map (\<lambda>i. take stride (drop (i * stride) bs)) [0..<n]"

text \<open>
  Modelled from the spec: \<open>write_headers\<close>, missing from the files at hand, for one record: it
  "appends" the record "to the file and updates the index", at the height after the tip.
\<close>

definition write_header :: "(byte list \<Rightarrow> hash) \<Rightarrow> headerStore \<Rightarrow> byte list \<Rightarrow> headerStore" where
  "write_header H st rec =
     \<lparr> hs_file = hs_file st @ rec,
       hs_index = (H rec, Suc (the (tip_height st))) # hs_index st,
       hs_tip = H rec \<rparr>"

text \<open>
  Modelled from the spec: \<open>write_headers(records...)\<close>, missing from the files at hand, which
  appends the records in order.
\<close>

definition write_headers :: "(byte list \<Rightarrow> hash) \<Rightarrow> headerStore \<Rightarrow> byte list list \<Rightarrow> headerStore" where
  "write_headers H st recs = foldl (write_header H) st recs"

text \<open>
  Modelled from the spec: \<open>truncate_index(new_tip_hash)\<close>, the "test hook used to simulate
  partial-write recovery", missing from the files at hand: the index forgets its tip and
  advertises \<open>new_tip_hash\<close>; the file is not touched.
\<close>

definition truncate_index :: "headerStore \<Rightarrow> hash \<Rightarrow> headerStore" where
  "truncate_index st new_tip =
     st\<lparr> hs_index := filter (\<lambda>(h, _). h \<noteq> hs_tip st) (hs_index st), hs_tip := new_tip \<rparr>"

text \<open>
  Modelled from the spec: the recovery protocol at open time, missing from the files at hand.
  "Compare \<open>file_len / stride\<close> against the index's advertised tip height.  If the file is
  longer, truncate the file to match the index.  If the index is longer, fail with a
  diagnostic."
\<close>

definition open_store :: "headerStore \<Rightarrow> hs_error + headerStore" where
  "open_store st =
     (case tip_height st of
        None \<Rightarrow> Inl NotFound
      | Some t \<Rightarrow>
          if length (hs_file st) div stride > t
            then Inr (st\<lparr> hs_file := take (t * stride) (hs_file st) \<rparr>)
          else if length (hs_file st) div stride < t then Inl IndexAheadOfFile
          else Inr st)"

text \<open>
  Modelled from the spec: \<open>chain_tip()\<close>, missing from the files at hand, which returns the
  record of the tip and its height.
\<close>

definition chain_tip :: "headerStore \<Rightarrow> hs_error + byte list \<times> nat" where
  "chain_tip st =
     (case tip_height st of
        None \<Rightarrow> Inl NotFound
      | Some t \<Rightarrow> Inr (read_record (hs_file st) t, t))"

text \<open>
  Modelled from the spec: \<open>fetch_ancestor_range(stop_height, stop_hash, count)\<close>, missing from
  the files at hand.  It "returns the \<open>count\<close> records ending at \<open>stop_height\<close>;
  \<open>start_height = stop_height - count + 1\<close> (minimum 1; genesis excluded)", and it "is a bulk
  read of \<open>count * stride\<close> bytes followed by decode.  Start height is clamped so that genesis
  is never returned".  So the start height is computed and clamped, \<open>count * stride\<close> bytes are
  read at the offset of the record of the start height, and a read that the file cannot
  serve is an error.  The stop hash must be indexed at the stop height.

  \<open>count\<close> is the number of records returned.  The one call of the store's tests,
  \<open>FetchHeaderAncestors(numHeaders - 1, &lastHash)\<close> on a chain of 100 headers, asks for the 99
  ancestors of the last header and expects 100 headers and the start height 1, the ancestors
  and the header itself: that is the count 100 at the stop height 100.
\<close>

definition fetch_ancestor_range ::
  "headerStore \<Rightarrow> nat \<Rightarrow> hash \<Rightarrow> nat \<Rightarrow> hs_error + byte list list \<times> nat" where
  "fetch_ancestor_range st stop_height stop_hash count =
     (if map_of (hs_index st) stop_hash \<noteq> Some stop_height then Inl NotFound
      else
        (let start_height = max 1 (Suc stop_height - count)
         in case read_bulk (hs_file st) ((start_height - 1) * stride) (count * stride) of
              None \<Rightarrow> Inl OutOfRange
            | Some bs \<Rightarrow> Inr (decode_records count bs, start_height)))"

text \<open>
  What claim C5 says of a result of \<open>fetch_ancestor_range\<close> on a chain of records \<open>hs\<close>: it
  holds \<open>count\<close> records, the start height is \<open>stop_height - count + 1\<close> clamped to 1, and the
  records are those of the chain from the start height to the stop height.
\<close>

definition claimed_range ::
  "byte list list \<Rightarrow> nat \<Rightarrow> nat \<Rightarrow> hs_error + byte list list \<times> nat \<Rightarrow> bool" where
  "claimed_range hs stop_height count r =
     (case r of
        Inl e \<Rightarrow> False
      | Inr (recs, start_height) \<Rightarrow>
          length recs = count \<and> start_height = max 1 (Suc stop_height - count)
          \<and> recs = take (Suc stop_height - start_height) (drop (start_height - 1) hs))"

text \<open>
  The index truncated back by five blocks, as the recovery test does: the new tips are the
  hashes of the headers of the heights 9, 8, 7, 6 and 5.
\<close>

definition truncate_5 :: "(byte list \<Rightarrow> hash) \<Rightarrow> byte list list \<Rightarrow> headerStore \<Rightarrow> headerStore" where
  "truncate_5 H hs st = foldl truncate_index st (map (\<lambda>i. H (hs ! (8 - i))) [0..<5])"

text \<open>
  Synthetic headers for evaluation: the header of height \<open>n\<close> is the byte \<open>n\<close> followed by 79
  zero bytes, the toy hash of a record is its first byte, and the genesis hash is 0.
  \<open>toy_store n\<close> holds the first \<open>n\<close> of them, and \<open>toy_crashed\<close> is the store of ten headers
  whose index was truncated back by five.
\<close>

definition toy_header :: "nat \<Rightarrow> byte list" where
  "toy_header n = of_nat n # replicate 79 0"

definition toy_hash :: "byte list \<Rightarrow> hash" where
  "toy_hash rec = (case rec of [] \<Rightarrow> 0 | b # _ \<Rightarrow> ucast b)"

definition toy_chain :: "nat \<Rightarrow> byte list list" where
  "toy_chain n = map toy_header [1..<Suc n]"

definition toy_store :: "nat \<Rightarrow> headerStore" where
  "toy_store n = write_headers toy_hash (new_store 0) (toy_chain n)"

definition toy_crashed :: headerStore where
  "toy_crashed = truncate_5 toy_hash (toy_chain 10) (toy_store 10)"

section \<open>Fee estimator: the estimates (claims C7, C8, C10)\<close>

subsection \<open>Auxiliary facts\<close>

lemma those_map_live:
  "list_all (\<lambda>x. f x \<noteq> None) xs \<Longrightarrow> \<exists>ys. those (map f xs) = Some ys \<and> length ys = length xs"
  by (induction xs) auto

lemma binnedRates_live:
  assumes "bins_live ef"
  shows "\<exists>rs. binnedRates ef = Some rs"
proof -
  have "list_all (\<lambda>p. map_option feeRate (deref (objs ef) p) \<noteq> None)
          (concat (map (bin ef) [0..<estimateFeeDepth]))"
    using assms unfolding bins_live_def list_all_iff by auto
  from those_map_live[OF this] show ?thesis
    unfolding binnedRates_def by blast
qed

lemma estimates_live:
  assumes "bins_live ef"
  shows "\<exists>es. estimates posInf ef = Inr es \<and> length es = estimateFeeDepth"
proof -
  obtain rs where "binnedRates ef = Some rs" using binnedRates_live[OF assms] by blast
  then show ?thesis by (simp add: estimates_def newEstimateFeeSet_def)
qed

lemma cached_length:
  assumes "cache_ok posInf ef" "cached ef = Some es"
  shows "length es = estimateFeeDepth"
  using assms by (auto simp: cache_ok_def estimates_def split: sum.splits)

lemma word25: "numBlocks \<noteq> 0 \<Longrightarrow> \<not> numBlocks > (of_nat estimateFeeDepth :: 32 word) \<Longrightarrow> unat numBlocks - 1 < estimateFeeDepth"
  by (simp add: estimateFeeDepth_def word_less_nat_alt not_less word_le_nat_alt)























lemma upt_25: "[0..<25] = [0,1,2,3,4,5,6,7,8,9,10,11,12,13,14,15,16,17,18,19,20,21,22,23,24]"
  by code_simp

lemmas fee_eval = upt_25 newTestFeeEstimator_def EstimateFee_def estimates_def
  newEstimateFeeSet_def binnedRates_def estimateFeeDepth_def deref_def estimateFee_def
  feeIndex_def binPrefix_def ToBtcPerKb_def bytePerKb_def duoPerSatoshi_def cache_ok_def
  bins_small_def bins_live_def rates_nonneg_def Let_def

lemma ef_two_ok: "cache_ok 0 ef_two" "bins_small ef_two" "bins_live ef_two" "rates_nonneg ef_two"
  by (simp_all add: fee_eval ef_two_def)

subsection \<open>C8: when EstimateFee fails\<close>

text \<open>
  Claim C8.  \<open>EstimateFee\<close> returns an error exactly when the requested depth is 0, or is
  greater than 25, or fewer than \<open>minRegisteredBlocks\<close> blocks have been registered; in every
  other case it returns an estimate.  The estimator is one whose bins point to live objects
  and whose cache is empty or current, as every estimator built by the package is.
\<close>

theorem C8_EstimateFee_error_iff:
  assumes "bins_live ef" and "cache_ok posInf ef"
  shows "(\<exists>e. fst (EstimateFee posInf ef numBlocks) = Inl e) \<longleftrightarrow>
         (numBlocks = 0 \<or> numBlocks > 25 \<or> numBlocksRegistered ef < minRegisteredBlocks ef)"
proof (cases "numBlocksRegistered ef < minRegisteredBlocks ef \<or> numBlocks = 0 \<or> numBlocks > of_nat estimateFeeDepth")
  case True
  then show ?thesis by (auto simp: EstimateFee_def estimateFeeDepth_def)
next
  case False
  then have idx: "unat numBlocks - 1 < estimateFeeDepth" using word25 by blast
  show ?thesis
  proof (cases "cached ef")
    case None
    obtain es where "estimates posInf ef = Inr es" "length es = estimateFeeDepth"
      using estimates_live[OF assms(1)] by blast
    with None False idx show ?thesis by (auto simp: EstimateFee_def estimateFeeDepth_def)
  next
    case (Some es)
    then have "length es = estimateFeeDepth" using cached_length assms(2) by blast
    with Some False idx show ?thesis by (auto simp: EstimateFee_def estimateFeeDepth_def)
  qed
qed

theorem C8_EstimateFee_error_iff_witness:
  "bins_live ef_two \<and> cache_ok 0 ef_two
   \<and> (\<exists>e. fst (EstimateFee 0 ef_two 26) = Inl e)
   \<and> (\<nexists>e. fst (EstimateFee 0 ef_two 7) = Inl e)"
proof -
  have h: "bins_live ef_two" "cache_ok 0 ef_two" by (rule ef_two_ok)+
  have n: "\<not> numBlocksRegistered ef_two < minRegisteredBlocks ef_two"
    by (simp add: ef_two_def newTestFeeEstimator_def)
  show ?thesis
    using h n C8_EstimateFee_error_iff [OF h, of 26] C8_EstimateFee_error_iff [OF h, of 7]
    by simp
qed

subsection \<open>C7: the value of a successful estimate\<close>




subsection \<open>C10: estimates do not increase with the depth\<close>




section \<open>Fee estimator: RegisterBlock (claim C4)\<close>

lemma registerTxs_counters:
  "registerTxs U h ts st = (r, st') \<Longrightarrow>
     lastKnownHeight (rl_ef st') = lastKnownHeight (rl_ef st) \<and>
     numBlocksRegistered (rl_ef st') = numBlocksRegistered (rl_ef st)"
proof (induction ts arbitrary: st)
  case Nil
  then show ?case by simp
next
  case (Cons t ts)
  show ?case
    using Cons.prems Cons.IH
    by (auto simp: Let_def split: option.splits if_splits prod.splits)
qed

text \<open>
  Claim C4 says that every call of \<open>RegisterBlock\<close> that returns without error increments
  \<open>lastKnownHeight\<close> by exactly 1.  The guard of the source lets any height through while
  \<open>lastKnownHeight\<close> is the unmined height: registering a block of height 100 with a new
  estimator succeeds and leaves the height at 100, not at the unmined height plus 1.
\<close>

theorem C4_counterexample:
  "fst (RegisterBlock 2147483647 (NewFeeEstimator 2147483647 2 3 :: real FeeEstimator)
          block_100 []) = None
   \<and> lastKnownHeight (snd (RegisterBlock 2147483647
          (NewFeeEstimator 2147483647 2 3 :: real FeeEstimator) block_100 [])) = 100
   \<and> lastKnownHeight (NewFeeEstimator 2147483647 2 3 :: real FeeEstimator) + 1 \<noteq> 100"
  by (simp add: RegisterBlock_def NewFeeEstimator_def block_100_def Let_def)

text \<open>
  Claim C4, amended.  Every call of \<open>RegisterBlock\<close> that returns without error increments
  \<open>numBlocksRegistered\<close> by exactly 1 (in \<open>uint32\<close> arithmetic) and sets \<open>lastKnownHeight\<close> to the
  height of the block; that is an increment by exactly 1 whenever \<open>lastKnownHeight\<close> was not
  the unmined height before the call.  When it was not the unmined height and the block's
  height is not \<open>lastKnownHeight + 1\<close>, the call fails with the intermediate-block error and
  changes nothing but the cache, which it clears.
\<close>

theorem C4_RegisterBlock_counters:
  "(RegisterBlock U ef block rnd = (None, ef') \<longrightarrow>
      numBlocksRegistered ef' = numBlocksRegistered ef + 1
      \<and> lastKnownHeight ef' = blk_height block
      \<and> (lastKnownHeight ef \<noteq> U \<longrightarrow> lastKnownHeight ef' = lastKnownHeight ef + 1))
   \<and> (lastKnownHeight ef \<noteq> U \<and> blk_height block \<noteq> lastKnownHeight ef + 1 \<longrightarrow>
        RegisterBlock U ef block rnd = (Some ErrIntermediateBlock, ef\<lparr>cached := None\<rparr>))"
proof (intro conjI impI)
  assume lk: "lastKnownHeight ef \<noteq> U \<and> blk_height block \<noteq> lastKnownHeight ef + 1"
  then show "RegisterBlock U ef block rnd = (Some ErrIntermediateBlock, ef\<lparr>cached := None\<rparr>)"
    by (simp add: RegisterBlock_def Let_def)
next
  assume ok: "RegisterBlock U ef block rnd = (None, ef')"
  define ef2 where "ef2 = ef\<lparr>cached := None, lastKnownHeight := blk_height block,
                          numBlocksRegistered := numBlocksRegistered ef + 1\<rparr>"
  define st0 where
    "st0 = \<lparr> rl_ef = ef2, replacementCounts = (\<lambda>_. 0), rl_dropped = [], rl_rnd = rnd \<rparr>"
  have guard: "\<not> (blk_height block \<noteq> lastKnownHeight ef + 1 \<and> lastKnownHeight ef \<noteq> U)"
  proof
    assume "blk_height block \<noteq> lastKnownHeight ef + 1 \<and> lastKnownHeight ef \<noteq> U"
    then have "RegisterBlock U ef block rnd = (Some ErrIntermediateBlock, ef\<lparr>cached := None\<rparr>)"
      by (simp add: RegisterBlock_def Let_def)
    with ok show False by simp
  qed
  obtain r st where rt: "registerTxs U (blk_height block) (blk_txs block) st0 = (r, st)"
    by (cases "registerTxs U (blk_height block) (blk_txs block) st0") auto
  have c: "lastKnownHeight (rl_ef st) = blk_height block"
          "numBlocksRegistered (rl_ef st) = numBlocksRegistered ef + 1"
    using registerTxs_counters[OF rt] by (simp_all add: st0_def ef2_def)
  have unf: "RegisterBlock U ef block rnd =
      (case r of Some e \<Rightarrow> (Some e, rl_ef st)
       | None \<Rightarrow>
          (case expireObserved U (blk_height block) (objs (rl_ef st)) (observedMap (rl_ef st)) of
             Inl e \<Rightarrow> (Some e, rl_ef st)
           | Inr obs \<Rightarrow>
               if maxRollback (rl_ef st) = 0 then (None, (rl_ef st)\<lparr>observedMap := obs\<rparr>)
               else if (of_nat (length (dropped (rl_ef st))) :: 32 word) = maxRollback (rl_ef st)
                 then (None, (rl_ef st)\<lparr>observedMap := obs,
                        dropped := tl (dropped (rl_ef st)) @
                          [\<lparr> rb_hash = blk_hash block, transactions = rl_dropped st \<rparr>]\<rparr>)
               else (None, (rl_ef st)\<lparr>observedMap := obs,
                        dropped := dropped (rl_ef st) @
                          [\<lparr> rb_hash = blk_hash block, transactions = rl_dropped st \<rparr>]\<rparr>)))"
    using guard rt[unfolded st0_def ef2_def]
    by (cases r) (auto simp: RegisterBlock_def Let_def split: sum.splits)
  have "lastKnownHeight ef' = lastKnownHeight (rl_ef st) \<and>
        numBlocksRegistered ef' = numBlocksRegistered (rl_ef st)"
    using ok unfolding unf
    by (auto split: option.splits sum.splits if_splits)
  then show "numBlocksRegistered ef' = numBlocksRegistered ef + 1"
    and "lastKnownHeight ef' = blk_height block" using c by simp_all
  then show "lastKnownHeight ef' = lastKnownHeight ef + 1" if "lastKnownHeight ef \<noteq> U"
    using guard that by simp
qed

lemmas reg_eval = RegisterBlock_def ef_obs_def block_4_def block_100_def newTestFeeEstimator_def
  Let_def deref_def estimateFeeDepth_def word_sle_eq word_sless_alt

theorem C4_RegisterBlock_counters_witness:
  "fst (RegisterBlock 2147483647 ef_obs block_4 []) = None
   \<and> lastKnownHeight ef_obs \<noteq> 2147483647
   \<and> numBlocksRegistered (snd (RegisterBlock 2147483647 ef_obs block_4 [])) = 4
   \<and> lastKnownHeight (snd (RegisterBlock 2147483647 ef_obs block_4 [])) = 4
   \<and> bin (snd (RegisterBlock 2147483647 ef_obs block_4 [])) 0 = [Some 0]
   \<and> blk_height block_100 \<noteq> lastKnownHeight ef_obs + 1
   \<and> fst (RegisterBlock 2147483647 ef_obs block_100 []) = Some ErrIntermediateBlock"
proof -
  have f: "fst (RegisterBlock 2147483647 ef_obs block_4 []) = None"
    by (simp add: reg_eval)
  then have ok: "RegisterBlock 2147483647 ef_obs block_4 [] =
                   (None, snd (RegisterBlock 2147483647 ef_obs block_4 []))"
    by (simp add: prod_eq_iff)
  have u: "lastKnownHeight ef_obs \<noteq> 2147483647"
    "lastKnownHeight ef_obs = 3" "numBlocksRegistered ef_obs = 3"
    by (simp_all add: ef_obs_def newTestFeeEstimator_def)
  have b: "bin (snd (RegisterBlock 2147483647 ef_obs block_4 [])) 0 = [Some 0]"
    by (simp add: reg_eval)
  have h: "blk_height block_100 \<noteq> lastKnownHeight ef_obs + 1" "blk_height block_4 = 4"
    by (simp_all add: u block_100_def block_4_def)
  have c: "numBlocksRegistered (snd (RegisterBlock 2147483647 ef_obs block_4 [])) = 4
     \<and> lastKnownHeight (snd (RegisterBlock 2147483647 ef_obs block_4 [])) = 4"
    using C4_RegisterBlock_counters [of 2147483647 ef_obs block_4 "[]"
        "snd (RegisterBlock 2147483647 ef_obs block_4 [])"] ok u h by simp
  have d: "fst (RegisterBlock 2147483647 ef_obs block_100 []) = Some ErrIntermediateBlock"
    using C4_RegisterBlock_counters [of 2147483647 ef_obs block_100 "[]" ef_obs] u(1) h(1)
    by simp
  show ?thesis using f u(1) b h(1) c d by simp
qed


section \<open>Fee estimator: Save and RestoreFeeEstimator (claim C2)\<close>

subsection \<open>Auxiliary facts\<close>

lemma length_be_bytes [simp]: "length (be_bytes n v) = n"
  by (induction n arbitrary: v) auto

lemma be_nat_snoc: "be_nat (bs @ [b]) = 256 * be_nat bs + unat b"
  by (simp add: be_nat_def)

lemma be_nat_be_bytes: "be_nat (be_bytes n v) = v mod 256 ^ n"
proof (induction n arbitrary: v)
  case 0
  then show ?case by (simp add: be_nat_def)
next
  case (Suc n)
  have "unat (of_nat (v mod 256) :: byte) = v mod 256"
    by (simp add: unat_of_nat)
  then have "be_nat (be_bytes (Suc n) v) = 256 * ((v div 256) mod 256 ^ n) + v mod 256"
    using Suc by (simp add: be_nat_snoc)
  also have "\<dots> = v mod (256 * 256 ^ n)"
    by (simp add: mod_mult2_eq)
  finally show ?case by simp
qed

lemma readFull_append:
  "length bs = n \<Longrightarrow> readFull n (bs @ rest) = (Inr bs, rest)"
  by (simp add: readFull_def)

lemma readUint32_write [simp]: "readUint32 (writeUint32 w @ rest) = (w, rest)"
proof -
  have "unat w < 2 ^ 32" using unsigned_less[of w] by simp
  then have "unat w mod 256 ^ 4 = unat w" by simp
  then show ?thesis
    by (simp add: readUint32_def writeUint32_def readFull_append be_nat_be_bytes)
qed

lemma readHash_write [simp]: "readHash (writeHash h @ rest) = (h, rest)"
proof -
  have "unat h < 2 ^ 256" using unsigned_less[of h] by simp
  then have "unat h mod 256 ^ 32 = unat h" by simp
  then show ?thesis
    by (simp add: readHash_def writeHash_def readFull_append be_nat_be_bytes)
qed

lemma readFloat64_write [simp]:
  "readFloat64 frombits (writeUint64 w @ rest) = (frombits w, rest)"
proof -
  have "unat w < 2 ^ 64" using unsigned_less[of w] by simp
  then have "unat w mod 256 ^ 8 = unat w" by simp
  then show ?thesis
    by (simp add: readFloat64_def writeUint64_def readFull_append be_nat_be_bytes)
qed
































subsection \<open>Save, restore, save\<close>



section \<open>Address-manager store: deletePrivateKeys (claim C3)\<close>

subsection \<open>Little-endian fields\<close>

lemma length_le_bytes [simp]: "length (le_bytes n v) = n"
  by (induction n arbitrary: v) auto

lemma le_nat_le_bytes: "le_nat (le_bytes n v) = v mod 256 ^ n"
proof (induction n arbitrary: v)
  case 0
  then show ?case by simp
next
  case (Suc n)
  have "unat (of_nat (v mod 256) :: byte) = v mod 256"
    by (simp add: unat_of_nat)
  then have "le_nat (le_bytes (Suc n) v) = v mod 256 + 256 * ((v div 256) mod 256 ^ n)"
    using Suc by simp
  also have "\<dots> = v mod (256 * 256 ^ n)"
    by (simp add: mod_mult2_eq)
  finally show ?case by simp
qed

lemma length_uint32ToBytes [simp]: "length (uint32ToBytes w) = 4"
  by (simp add: uint32ToBytes_def)

lemma length_PutUint64 [simp]: "length (PutUint64 w) = 8"
  by (simp add: PutUint64_def)

lemma Uint32_uint32ToBytes [simp]: "Uint32 (uint32ToBytes w @ rest) = w"
proof -
  have "unat w < 2 ^ 32" using unsigned_less[of w] by simp
  then have "unat w mod 256 ^ 4 = unat w" by simp
  then show ?thesis by (simp add: Uint32_def uint32ToBytes_def le_nat_le_bytes)
qed

lemma Uint32_uint32ToBytes0 [simp]: "Uint32 (uint32ToBytes w) = w"
  using Uint32_uint32ToBytes[of w "[]"] by simp

lemma Uint64_PutUint64 [simp]: "Uint64 (PutUint64 w @ rest) = w"
proof -
  have "unat w < 2 ^ 64" using unsigned_less[of w] by simp
  then have "unat w mod 256 ^ 8 = unat w" by simp
  then show ?thesis by (simp add: Uint64_def PutUint64_def le_nat_le_bytes)
qed

lemma Uint64_PutUint640 [simp]: "Uint64 (PutUint64 w) = w"
  using Uint64_PutUint64[of w "[]"] by simp

lemma add_no_wrap:
  fixes a b :: "32 word"
  assumes "unat a \<le> unat (a + b)"
  shows "unat (a + b) = unat a + unat b"
proof (rule ccontr)
  assume "unat (a + b) \<noteq> unat a + unat b"
  then have "unat (a + b) = unat a + unat b - 2 ^ 32" and "\<not> unat a + unat b < 2 ^ 32"
    using unat_plus_if'[of a b] by (auto split: if_splits)
  moreover have "unat b < 2 ^ 32" using unsigned_less[of b] by simp
  ultimately show False using assms by linarith
qed

lemma goSlice_Some:
  "goSlice s a b = Some bs \<longleftrightarrow> a \<le> b \<and> b \<le> length s \<and> bs = take (b - a) (drop a s)"
  by (auto simp: goSlice_def)

lemma readBytesAt_SomeD:
  assumes "readBytesAt s off n = Some (bs, off')"
  shows "off' = off + n" "unat off' = unat off + unat n" "unat off' \<le> length s"
    "length bs = unat n" "bs = take (unat n) (drop (unat off) s)"
proof -
  from assms have g: "goSlice s (unat off) (unat (off + n)) = Some bs" and o: "off' = off + n"
    by (auto simp: readBytesAt_def split: option.splits)
  show "off' = off + n" by fact
  from g have le: "unat off \<le> unat (off + n)" "unat (off + n) \<le> length s"
    and bs: "bs = take (unat (off + n) - unat off) (drop (unat off) s)"
    by (auto simp: goSlice_Some)
  have e: "unat (off + n) = unat off + unat n" by (rule add_no_wrap[OF le(1)])
  show "unat off' = unat off + unat n" using e o by simp
  show "unat off' \<le> length s" using le o by simp
  show "bs = take (unat n) (drop (unat off) s)" using bs e by simp
  then show "length bs = unat n" using le e by simp
qed

lemma readUint32At_SomeD:
  assumes "readUint32At s off = Some (w, off')"
  shows "off' = off + 4" "unat off' = unat off + 4" "unat off' \<le> length s"
    "w = Uint32 (take 4 (drop (unat off) s))"
proof -
  from assms obtain bs where g: "goSlice s (unat off) (unat (off + 4)) = Some bs"
    and o: "off' = off + 4" and w: "w = Uint32 bs"
    by (auto simp: readUint32At_def split: option.splits)
  show "off' = off + 4" by fact
  from g have le: "unat off \<le> unat (off + 4)" "unat (off + 4) \<le> length s"
    and bs: "bs = take (unat (off + 4) - unat off) (drop (unat off) s)"
    by (auto simp: goSlice_Some)
  have e: "unat (off + 4) = unat off + 4" using add_no_wrap[OF le(1)] by simp
  show "unat off' = unat off + 4" using e o by simp
  show "unat off' \<le> length s" using le o by simp
  show "w = Uint32 (take 4 (drop (unat off) s))" using bs e w by simp
qed

lemma unat_of_nat32: "n < 2 ^ 32 \<Longrightarrow> unat (of_nat n :: 32 word) = n"
  by (simp add: unat_of_nat)

lemma readUint32At_concat:
  assumes "unat off = length pre" "length pre + 4 < 2 ^ 32"
  shows "readUint32At (pre @ uint32ToBytes w @ post) off = Some (w, off + 4)"
proof -
  have "unat off + unat (4 :: 32 word) < 2 ^ 32" using assms by simp
  then have e: "unat (off + 4) = unat off + 4" using unat_add_lem[of off 4] by simp
  show ?thesis
    unfolding readUint32At_def goSlice_def e using assms(1) by simp
qed

lemma readBytesAt_concat:
  assumes "unat off = length pre" "unat n = length bs" "length pre + length bs < 2 ^ 32"
  shows "readBytesAt (pre @ bs @ post) off n = Some (bs, off + n)"
proof -
  have "unat off + unat n < 2 ^ 32" using assms by simp
  then have e: "unat (off + n) = unat off + unat n" using unat_add_lem[of off n] by simp
  show ?thesis
    unfolding readBytesAt_def goSlice_def e using assms(1,2) by simp
qed

subsection \<open>Buckets and handles\<close>

lemma lookupB_append:
  "lookupB b (p @ q) = (case lookupB b p of None \<Rightarrow> None | Some b' \<Rightarrow> lookupB b' q)"
  by (induction p arbitrary: b) (auto split: option.splits entry.splits)

lemma modifyB_append:
  "modifyB f b (p @ q) = modifyB (\<lambda>b'. modifyB f b' q) b p"
  by (induction p arbitrary: b) (auto split: option.splits entry.splits)

lemma lookupB_modifyB_same:
  "lookupB (modifyB f b p) p = map_option f (lookupB b p)"
  by (induction p arbitrary: b) (auto simp: update_conv' split: option.splits entry.splits)

lemma modifyB_modifyB:
  "modifyB f (modifyB g b p) p = modifyB (f \<circ> g) b p"
  by (induction p arbitrary: b) (auto simp: update_conv' split: option.splits entry.splits)

lemma modifyB_cong_at:
  "lookupB b p = Some c \<Longrightarrow> f c = g c \<Longrightarrow> modifyB f b p = modifyB g b p"
  by (induction p arbitrary: b) (auto split: option.splits entry.splits)

lemma modifyB_const:
  "lookupB b p = Some c \<Longrightarrow> modifyB f b p = modifyB (\<lambda>_. f c) b p"
  by (rule modifyB_cong_at) simp_all

lemma modifyB_id:
  "lookupB b p = Some c \<Longrightarrow> f c = c \<Longrightarrow> modifyB f b p = b"
proof (induction p arbitrary: b)
  case Nil
  then show ?case by simp
next
  case (Cons k ks)
  then show ?case
    by (auto split: option.splits entry.splits simp: AList.update_triv)
qed

lemma lookupB_modifyB_other:
  "k \<noteq> k' \<Longrightarrow> lookupB (modifyB f b (k # p)) (k' # q) = lookupB b (k' # q)"
  by (auto simp: update_conv' split: option.splits entry.splits)

lemma map_of_modifyB_other:
  "k \<noteq> k' \<Longrightarrow> map_of (modifyB f b (k # p)) k' = map_of b k'"
  by (auto simp: update_conv' split: option.splits entry.splits)

lemma modifyB_top:
  "map_of b k = Some (Bkt x) \<Longrightarrow> modifyB f b [k] = AList.update k (Bkt (f x)) b"
  by simp

lemma update_middle:
  "k \<notin> fst ` set pre \<Longrightarrow> AList.update k e' (pre @ (k, e) # suf) = pre @ (k, e') # suf"
  by (induction pre) auto

lemma map_of_middle:
  "k \<notin> fst ` set pre \<Longrightarrow> map_of (pre @ (k, e) # suf) k = Some e"
  by (induction pre) auto

lemma keys_ok_middle:
  "keys_ok (pre @ (k, e) # suf) \<Longrightarrow> k \<notin> fst ` set pre \<and> k \<noteq> []"
  by (auto simp: keys_ok_def)

lemma bucket_Put_middle:
  assumes "lookupB ns h = Some (pre @ (k, Val v) # suf)" "keys_ok (pre @ (k, Val v) # suf)"
  shows "bucket_Put ns h k v' = Inr (modifyB (\<lambda>_. pre @ (k, Val v') # suf) ns h)"
proof -
  from keys_ok_middle[OF assms(2)] have k: "k \<notin> fst ` set pre" "k \<noteq> []" by auto
  have "modifyB (AList.update k (Val v')) ns h = modifyB (\<lambda>_. pre @ (k, Val v') # suf) ns h"
    by (rule modifyB_cong_at[OF assms(1)]) (simp add: update_middle[OF k(1)])
  moreover have "map_of (pre @ (k, Val v) # suf) k = Some (Val v)"
    by (rule map_of_middle[OF k(1)])
  ultimately show ?thesis
    using assms(1) k(2) by (simp add: bucket_Put_def del: map_of_append)
qed

lemma keys_ok_replace:
  "keys_ok (pre @ (k, e) # suf) \<Longrightarrow> keys_ok ((pre @ [(k, e')]) @ suf)"
  by (auto simp: keys_ok_def)

lemma lookupB_modifyB_const:
  "lookupB ns h = Some b \<Longrightarrow> lookupB (modifyB (\<lambda>_. c) ns h) h = Some c"
  by (simp add: lookupB_modifyB_same)

lemma modifyB_const_const:
  "modifyB (\<lambda>_. c) (modifyB (\<lambda>_. d) ns h) h = modifyB (\<lambda>_. c) ns h"
  by (simp add: modifyB_modifyB comp_def)

lemma deleteAccountKeys_loop:
  assumes "lookupB ns h = Some (pre @ suf)" "keys_ok (pre @ suf)"
    "list_all (\<lambda>(k, e). case e of Val v \<Rightarrow> accountRowReadable v | Bkt x \<Rightarrow> True) suf"
  shows "deleteAccountKeys h (forEachPairs suf) ns
         = (None, modifyB (\<lambda>_. pre @ mapValues clearAccountRow suf) ns h)"
  using assms
proof (induction suf arbitrary: pre ns)
  case Nil
  then show ?case by (simp add: forEachPairs_def mapValues_def modifyB_id)
next
  case (Cons a suf)
  obtain k e where a: "a = (k, e)" by (cases a)
  show ?case
  proof (cases e)
    case (Bkt x)
    have "deleteAccountKeys h (forEachPairs suf) ns
          = (None, modifyB (\<lambda>_. (pre @ [(k, e)]) @ mapValues clearAccountRow suf) ns h)"
      using Cons.prems by (intro Cons.IH) (simp_all add: a)
    then show ?thesis by (simp add: a Bkt forEachPairs_def mapValues_def)
  next
    case (Val v)
    from Cons.prems(3) have rd: "accountRowReadable v" by (simp add: a Val)
    then obtain row where row: "deserializeAccountRow v = Inr row"
      by (auto simp: accountRowReadable_def split: sum.splits)
    show ?thesis
    proof (cases "acctType row = accountDefault")
      case False
      then have clr: "clearAccountRow v = v" by (simp add: clearAccountRow_def row)
      have "deleteAccountKeys h (forEachPairs suf) ns
            = (None, modifyB (\<lambda>_. (pre @ [(k, e)]) @ mapValues clearAccountRow suf) ns h)"
        using Cons.prems by (intro Cons.IH) (simp_all add: a)
      then show ?thesis using False by (simp add: a Val forEachPairs_def mapValues_def row clr)
    next
      case True
      with rd row obtain arow where arow: "deserializeDefaultAccountRow row = Inr arow"
        by (cases "deserializeDefaultAccountRow row") (auto simp: accountRowReadable_def)
      define v' where "v' = serializeAccountRow
            (row\<lparr>rawData := serializeDefaultAccountRow (pubKeyEncrypted arow) []
                    (nextExternalIndex arow) (nextInternalIndex arow) (name arow)\<rparr>)"
      have clr: "clearAccountRow v = v'"
        using True by (simp add: clearAccountRow_def row arow v'_def)
      define ns' where "ns' = modifyB (\<lambda>_. pre @ (k, Val v') # suf) ns h"
      have put: "bucket_Put ns h k v' = Inr ns'"
        unfolding ns'_def using Cons.prems(1,2) by (intro bucket_Put_middle) (simp_all add: a Val)
      have l': "lookupB ns' h = Some ((pre @ [(k, Val v')]) @ suf)"
        unfolding ns'_def using Cons.prems(1) by (simp add: lookupB_modifyB_same)
      have k': "keys_ok ((pre @ [(k, Val v')]) @ suf)"
        using Cons.prems(2) unfolding a by (rule keys_ok_replace)
      have "deleteAccountKeys h (forEachPairs suf) ns'
            = (None, modifyB (\<lambda>_. (pre @ [(k, Val v')]) @ mapValues clearAccountRow suf) ns' h)"
        using l' k' Cons.prems(3) by (intro Cons.IH) simp_all
      also have "modifyB (\<lambda>_. (pre @ [(k, Val v')]) @ mapValues clearAccountRow suf) ns' h
                 = modifyB (\<lambda>_. (pre @ [(k, Val v')]) @ mapValues clearAccountRow suf) ns h"
        unfolding ns'_def by (rule modifyB_const_const)
      finally have rest: "deleteAccountKeys h (forEachPairs suf) ns'
            = (None, modifyB (\<lambda>_. (pre @ [(k, Val v')]) @ mapValues clearAccountRow suf) ns h)" .
      have step: "deleteAccountKeys h (forEachPairs (a # suf)) ns
                  = deleteAccountKeys h (forEachPairs suf) ns'"
        using True put by (simp add: a Val forEachPairs_def row arow v'_def)
      show ?thesis unfolding step rest by (simp add: a Val mapValues_def clr)
    qed
  qed
qed

lemma deleteAddressKeys_loop:
  assumes "lookupB ns h = Some (pre @ suf)" "keys_ok (pre @ suf)"
    "list_all (\<lambda>(k, e). case e of Val v \<Rightarrow> addressRowReadable v | Bkt x \<Rightarrow> True) suf"
  shows "deleteAddressKeys h (forEachPairs suf) ns
         = (None, modifyB (\<lambda>_. pre @ mapValues clearAddressRow suf) ns h)"
  using assms
proof (induction suf arbitrary: pre ns)
  case Nil
  then show ?case by (simp add: forEachPairs_def mapValues_def modifyB_id)
next
  case (Cons a suf)
  obtain k e where a: "a = (k, e)" by (cases a)
  have skip: "deleteAddressKeys h (forEachPairs suf) ns
          = (None, modifyB (\<lambda>_. (pre @ [(k, e)]) @ mapValues clearAddressRow suf) ns h)"
    using Cons.prems by (intro Cons.IH) (simp_all add: a)
  show ?case
  proof (cases e)
    case (Bkt x)
    with skip show ?thesis by (simp add: a forEachPairs_def mapValues_def)
  next
    case (Val v)
    from Cons.prems(3) have rd: "addressRowReadable v" by (simp add: a Val)
    then obtain row where row: "deserializeAddressRow v = Inr row"
      by (auto simp: addressRowReadable_def split: sum.splits)
    have put_step: "deleteAddressKeys h (forEachPairs suf) (modifyB (\<lambda>_. pre @ (k, Val v') # suf) ns h)
            = (None, modifyB (\<lambda>_. (pre @ [(k, Val v')]) @ mapValues clearAddressRow suf) ns h)"
      for v'
    proof -
      define ns' where "ns' = modifyB (\<lambda>_. pre @ (k, Val v') # suf) ns h"
      have l': "lookupB ns' h = Some ((pre @ [(k, Val v')]) @ suf)"
        unfolding ns'_def using Cons.prems(1) by (simp add: lookupB_modifyB_same)
      have k': "keys_ok ((pre @ [(k, Val v')]) @ suf)"
        using Cons.prems(2) unfolding a by (rule keys_ok_replace)
      have "deleteAddressKeys h (forEachPairs suf) ns'
            = (None, modifyB (\<lambda>_. (pre @ [(k, Val v')]) @ mapValues clearAddressRow suf) ns' h)"
        using l' k' Cons.prems(3) by (intro Cons.IH) simp_all
      also have "modifyB (\<lambda>_. (pre @ [(k, Val v')]) @ mapValues clearAddressRow suf) ns' h
                 = modifyB (\<lambda>_. (pre @ [(k, Val v')]) @ mapValues clearAddressRow suf) ns h"
        unfolding ns'_def by (rule modifyB_const_const)
      finally show ?thesis unfolding ns'_def .
    qed
    have put: "bucket_Put ns h k v' = Inr (modifyB (\<lambda>_. pre @ (k, Val v') # suf) ns h)" for v'
      using Cons.prems(1,2) by (intro bucket_Put_middle) (simp_all add: a Val)
    consider (imp) "addrType row = adtImport" | (scr) "addrType row = adtScript"
      | (other) "addrType row \<noteq> adtImport" "addrType row \<noteq> adtScript" by blast
    then show ?thesis
    proof cases
      case imp
      with rd row obtain irow where irow: "deserializeImportedAddress row = Inr irow"
        by (cases "deserializeImportedAddress row") (auto simp: addressRowReadable_def)
      define v' where "v' = serializeAddressRow
            (row\<lparr>addrRawData := serializeImportedAddress (encryptedPubKey irow) []\<rparr>)"
      have clr: "clearAddressRow v = v'"
        using imp by (simp add: clearAddressRow_def row irow v'_def)
      have step: "deleteAddressKeys h (forEachPairs (a # suf)) ns
                  = deleteAddressKeys h (forEachPairs suf) (modifyB (\<lambda>_. pre @ (k, Val v') # suf) ns h)"
        using imp put[of v'] by (simp add: a Val forEachPairs_def row irow v'_def)
      show ?thesis unfolding step put_step by (simp add: a Val mapValues_def clr)
    next
      case scr
      then have ni: "addrType row \<noteq> adtImport" by (simp add: adtImport_def adtScript_def)
      from scr rd row obtain srow where srow: "deserializeScriptAddress row = Inr srow"
        by (cases "deserializeScriptAddress row") (auto simp: addressRowReadable_def)
      define v' where "v' = serializeAddressRow
            (row\<lparr>addrRawData := serializeScriptAddress (encryptedHash srow) []\<rparr>)"
      have clr: "clearAddressRow v = v'"
        using scr ni by (simp add: clearAddressRow_def row srow v'_def)
      have step: "deleteAddressKeys h (forEachPairs (a # suf)) ns
                  = deleteAddressKeys h (forEachPairs suf) (modifyB (\<lambda>_. pre @ (k, Val v') # suf) ns h)"
        using scr ni put[of v'] by (simp add: a Val forEachPairs_def row srow v'_def)
      show ?thesis unfolding step put_step by (simp add: a Val mapValues_def clr)
    next
      case other
      then have clr: "clearAddressRow v = v" by (simp add: clearAddressRow_def row)
      from skip other show ?thesis by (simp add: a Val forEachPairs_def mapValues_def row clr)
    qed
  qed
qed

lemma deleteAccountKeys_bucket:
  assumes "lookupB ns h = Some b" "rows_ok accountRowReadable b"
  shows "deleteAccountKeys h (forEachPairs b) ns = (None, modifyB (mapValues clearAccountRow) ns h)"
proof -
  have "deleteAccountKeys h (forEachPairs b) ns
        = (None, modifyB (\<lambda>_. [] @ mapValues clearAccountRow b) ns h)"
    using assms by (intro deleteAccountKeys_loop) (simp_all add: rows_ok_def)
  also have "modifyB (\<lambda>_. [] @ mapValues clearAccountRow b) ns h = modifyB (mapValues clearAccountRow) ns h"
    by (rule modifyB_cong_at[OF assms(1)]) simp
  finally show ?thesis .
qed

lemma deleteAddressKeys_bucket:
  assumes "lookupB ns h = Some b" "rows_ok addressRowReadable b"
  shows "deleteAddressKeys h (forEachPairs b) ns = (None, modifyB (mapValues clearAddressRow) ns h)"
proof -
  have "deleteAddressKeys h (forEachPairs b) ns
        = (None, modifyB (\<lambda>_. [] @ mapValues clearAddressRow b) ns h)"
    using assms by (intro deleteAddressKeys_loop) (simp_all add: rows_ok_def)
  also have "modifyB (\<lambda>_. [] @ mapValues clearAddressRow b) ns h = modifyB (mapValues clearAddressRow) ns h"
    by (rule modifyB_cong_at[OF assms(1)]) simp
  finally show ?thesis .
qed

lemma names_distinct:
  "acctBucketName \<noteq> coinTypePrivKeyName" "addrBucketName \<noteq> coinTypePrivKeyName"
  "addrBucketName \<noteq> acctBucketName" "scopeBucketName \<noteq> mainBucketName"
  by (simp_all add: acctBucketName_def coinTypePrivKeyName_def addrBucketName_def
      scopeBucketName_def mainBucketName_def)

lemma modifyB_snoc: "modifyB f b (p @ [k]) = modifyB (mapNested k f) b p"
proof -
  have "(\<lambda>b'. modifyB f b' [k]) = mapNested k f"
    by (rule ext) (simp add: mapNested_def split: option.splits entry.splits)
  then show ?thesis by (simp add: modifyB_append)
qed

lemma lookupB_snoc:
  "lookupB ns p = Some b \<Longrightarrow> map_of b k = Some (Bkt x) \<Longrightarrow> lookupB ns (p @ [k]) = Some x"
  by (simp add: lookupB_append)

lemma map_of_mapNested_other:
  "k \<noteq> k' \<Longrightarrow> map_of (mapNested k f b) k' = map_of b k'"
  by (auto simp: mapNested_def update_conv' split: option.splits entry.splits)

lemma bucket_Delete_ok:
  "lookupB ns p = Some b \<Longrightarrow> not_bucket b key
   \<Longrightarrow> bucket_Delete ns p key = Inr (modifyB (AList.delete key) ns p)"
  by (auto simp: bucket_Delete_def not_bucket_def split: option.splits entry.splits)

lemma deleteScopeKeys_step:
  assumes len: "length k = 8" and lk: "lookupB ns (h @ [k]) = Some b" and ok: "scope_ok b"
  shows "deleteScopeKeys h ((k, v) # rest) ns
         = deleteScopeKeys h rest (modifyB clearScope ns (h @ [k]))"
proof -
  define p where "p = h @ [k]"
  from ok obtain a d where a: "map_of b acctBucketName = Some (Bkt a)" "rows_ok accountRowReadable a"
    and d: "map_of b addrBucketName = Some (Bkt d)" "rows_ok addressRowReadable d"
    and nb: "not_bucket b coinTypePrivKeyName"
    by (auto simp: scope_ok_def split: option.splits entry.splits)
  have lp: "lookupB ns p = Some b" using lk by (simp add: p_def)
  have nest: "NestedReadWriteBucket ns h k = Some p"
    using lk by (simp add: NestedReadWriteBucket_def p_def)
  define ns1 where "ns1 = modifyB (AList.delete coinTypePrivKeyName) ns p"
  have del: "bucket_Delete ns p coinTypePrivKeyName = Inr ns1"
    unfolding ns1_def by (rule bucket_Delete_ok[OF lp nb])
  define b1 where "b1 = AList.delete coinTypePrivKeyName b"
  have l1: "lookupB ns1 p = Some b1"
    by (simp add: ns1_def b1_def lookupB_modifyB_same lp)
  have a1: "map_of b1 acctBucketName = Some (Bkt a)"
    using a(1) names_distinct(1) by (simp add: b1_def delete_conv')
  have d1: "map_of b1 addrBucketName = Some (Bkt d)"
    using d(1) names_distinct(2) by (simp add: b1_def delete_conv')
  have la: "lookupB ns1 (p @ [acctBucketName]) = Some a" by (rule lookupB_snoc[OF l1 a1])
  have fa: "bucket_ForEach ns1 (NestedReadWriteBucket ns1 p acctBucketName) = Inr (forEachPairs a)"
    by (simp add: bucket_ForEach_def NestedReadWriteBucket_def la)
  define ns2 where "ns2 = modifyB (mapValues clearAccountRow) ns1 (p @ [acctBucketName])"
  have acc: "deleteAccountKeys (p @ [acctBucketName]) (forEachPairs a) ns1 = (None, ns2)"
    unfolding ns2_def by (rule deleteAccountKeys_bucket[OF la a(2)])
  define b2 where "b2 = mapNested acctBucketName (mapValues clearAccountRow) b1"
  have l2: "lookupB ns2 p = Some b2"
    by (simp add: ns2_def b2_def modifyB_snoc lookupB_modifyB_same l1)
  have d2: "map_of b2 addrBucketName = Some (Bkt d)"
    using d1 names_distinct(3) by (simp add: b2_def map_of_mapNested_other)
  have ld: "lookupB ns2 (p @ [addrBucketName]) = Some d" by (rule lookupB_snoc[OF l2 d2])
  have fd: "bucket_ForEach ns2 (NestedReadWriteBucket ns2 p addrBucketName) = Inr (forEachPairs d)"
    by (simp add: bucket_ForEach_def NestedReadWriteBucket_def ld)
  define ns3 where "ns3 = modifyB (mapValues clearAddressRow) ns2 (p @ [addrBucketName])"
  have adr: "deleteAddressKeys (p @ [addrBucketName]) (forEachPairs d) ns2 = (None, ns3)"
    unfolding ns3_def by (rule deleteAddressKeys_bucket[OF ld d(2)])
  have "ns3 = modifyB (mapNested addrBucketName (mapValues clearAddressRow)
                \<circ> (mapNested acctBucketName (mapValues clearAccountRow)
                \<circ> AList.delete coinTypePrivKeyName)) ns p"
    by (simp add: ns3_def ns2_def ns1_def modifyB_snoc modifyB_modifyB)
  also have "\<dots> = modifyB clearScope ns p"
    by (rule modifyB_cong_at[OF lp]) (simp add: clearScope_def)
  finally have ns3: "ns3 = modifyB clearScope ns p" .
  have "deleteScopeKeys h ((k, v) # rest) ns = deleteScopeKeys h rest ns3"
    using len nest del fa acc fd adr by (simp add: p_def[symmetric])
  then show ?thesis by (simp add: ns3 p_def)
qed

lemma deleteScopeKeys_loop:
  assumes "lookupB ns h = Some (pre @ suf)" "keys_ok (pre @ suf)"
    "list_all (\<lambda>(scopeKey, e). length scopeKey = 8 \<longrightarrow>
                    (case e of Bkt b \<Rightarrow> scope_ok b | Val v \<Rightarrow> False)) suf"
  shows "deleteScopeKeys h (forEachPairs suf) ns
         = (None, modifyB (\<lambda>_. pre @ clearScopes suf) ns h)"
  using assms
proof (induction suf arbitrary: pre ns)
  case Nil
  then show ?case by (simp add: forEachPairs_def clearScopes_def modifyB_id)
next
  case (Cons a suf)
  obtain k e where a: "a = (k, e)" by (cases a)
  show ?case
  proof (cases "length k = 8")
    case False
    have "deleteScopeKeys h (forEachPairs suf) ns
          = (None, modifyB (\<lambda>_. (pre @ [(k, e)]) @ clearScopes suf) ns h)"
      using Cons.prems by (intro Cons.IH) (simp_all add: a)
    then show ?thesis using False
      by (cases e) (simp_all add: a forEachPairs_def clearScopes_def)
  next
    case True
    with Cons.prems(3) obtain b where e: "e = Bkt b" and ok: "scope_ok b"
      by (cases e) (simp_all add: a)
    from keys_ok_middle[OF Cons.prems(2)[unfolded a]] have k: "k \<notin> fst ` set pre" "k \<noteq> []" by auto
    have mk: "map_of (pre @ (k, Bkt b) # suf) k = Some (Bkt b)" by (rule map_of_middle[OF k(1)])
    have lk: "lookupB ns (h @ [k]) = Some b"
      using Cons.prems(1) mk by (intro lookupB_snoc) (simp_all add: a e del: map_of_append)
    define ns' where "ns' = modifyB clearScope ns (h @ [k])"
    have ns'_eq: "ns' = modifyB (\<lambda>_. pre @ (k, Bkt (clearScope b)) # suf) ns h"
      unfolding ns'_def modifyB_snoc
      by (rule modifyB_cong_at[OF Cons.prems(1)])
        (simp add: a e mapNested_def mk update_middle[OF k(1)] del: map_of_append)
    have l': "lookupB ns' h = Some ((pre @ [(k, Bkt (clearScope b))]) @ suf)"
      unfolding ns'_eq using Cons.prems(1) by (simp add: lookupB_modifyB_same)
    have k': "keys_ok ((pre @ [(k, Bkt (clearScope b))]) @ suf)"
      using Cons.prems(2) unfolding a by (rule keys_ok_replace)
    have "deleteScopeKeys h (forEachPairs suf) ns'
          = (None, modifyB (\<lambda>_. (pre @ [(k, Bkt (clearScope b))]) @ clearScopes suf) ns' h)"
      using l' k' Cons.prems(3) by (intro Cons.IH) simp_all
    also have "modifyB (\<lambda>_. (pre @ [(k, Bkt (clearScope b))]) @ clearScopes suf) ns' h
               = modifyB (\<lambda>_. (pre @ [(k, Bkt (clearScope b))]) @ clearScopes suf) ns h"
      unfolding ns'_eq by (rule modifyB_const_const)
    finally have rest: "deleteScopeKeys h (forEachPairs suf) ns'
          = (None, modifyB (\<lambda>_. (pre @ [(k, Bkt (clearScope b))]) @ clearScopes suf) ns h)" .
    have "deleteScopeKeys h (forEachPairs (a # suf)) ns = deleteScopeKeys h (forEachPairs suf) ns'"
      unfolding ns'_def using deleteScopeKeys_step[OF True lk ok, of None "forEachPairs suf"]
      by (simp add: a e forEachPairs_def)
    then show ?thesis using True by (simp add: rest a e clearScopes_def)
  qed
qed

lemma deletePrivateKeys_ok:
  assumes "wallet_ok ns"
  shows "deletePrivateKeys ns = (None, withoutPrivateKeys ns)"
proof -
  from assms obtain m sb where m: "map_of ns mainBucketName = Some (Bkt m)"
    and nb: "not_bucket m masterPrivKeyName" "not_bucket m cryptoPrivKeyName"
      "not_bucket m cryptoScriptKeyName" "not_bucket m masterHDPrivName"
    and sb: "map_of ns scopeBucketName = Some (Bkt sb)" and sok: "scopes_ok sb"
    by (auto simp: wallet_ok_def split: option.splits entry.splits)
  have nbd: "not_bucket (AList.delete k b) k'" if "not_bucket b k'" for b :: bucket and k k'
    using that by (auto simp: not_bucket_def delete_conv' split: option.splits entry.splits)
  have nest: "NestedReadWriteBucket ns [] mainBucketName = Some [mainBucketName]"
    by (simp add: NestedReadWriteBucket_def m)
  let ?p = "[mainBucketName]"
  define ns1 where "ns1 = modifyB (AList.delete masterPrivKeyName) ns ?p"
  define ns2 where "ns2 = modifyB (AList.delete cryptoPrivKeyName) ns1 ?p"
  define ns3 where "ns3 = modifyB (AList.delete cryptoScriptKeyName) ns2 ?p"
  define ns4 where "ns4 = modifyB (AList.delete masterHDPrivName) ns3 ?p"
  have l0: "lookupB ns ?p = Some m" by (simp add: m)
  have l1: "lookupB ns1 ?p = Some (AList.delete masterPrivKeyName m)"
    unfolding ns1_def lookupB_modifyB_same l0 by simp
  have l2: "lookupB ns2 ?p = Some (AList.delete cryptoPrivKeyName (AList.delete masterPrivKeyName m))"
    unfolding ns2_def lookupB_modifyB_same l1 by simp
  have l3: "lookupB ns3 ?p = Some (AList.delete cryptoScriptKeyName
              (AList.delete cryptoPrivKeyName (AList.delete masterPrivKeyName m)))"
    unfolding ns3_def lookupB_modifyB_same l2 by simp
  have d1: "bucket_Delete ns ?p masterPrivKeyName = Inr ns1"
    unfolding ns1_def by (rule bucket_Delete_ok[OF l0 nb(1)])
  have d2: "bucket_Delete ns1 ?p cryptoPrivKeyName = Inr ns2"
    unfolding ns2_def by (rule bucket_Delete_ok[OF l1 nbd[OF nb(2)]])
  have d3: "bucket_Delete ns2 ?p cryptoScriptKeyName = Inr ns3"
    unfolding ns3_def by (rule bucket_Delete_ok[OF l2 nbd[OF nbd[OF nb(3)]]])
  have d4: "bucket_Delete ns3 ?p masterHDPrivName = Inr ns4"
    unfolding ns4_def by (rule bucket_Delete_ok[OF l3 nbd[OF nbd[OF nbd[OF nb(4)]]]])
  have "ns4 = modifyB (AList.delete masterHDPrivName \<circ> (AList.delete cryptoScriptKeyName
            \<circ> (AList.delete cryptoPrivKeyName \<circ> AList.delete masterPrivKeyName))) ns ?p"
    unfolding ns4_def ns3_def ns2_def ns1_def modifyB_modifyB ..
  also have "\<dots> = modifyB clearMain ns ?p"
    by (rule modifyB_cong_at[OF l0]) (simp add: clearMain_def)
  also have "\<dots> = mapNested mainBucketName clearMain ns"
    using modifyB_snoc[of clearMain ns "[]" mainBucketName] by simp
  finally have ns4: "ns4 = mapNested mainBucketName clearMain ns" .
  have sb4: "map_of ns4 scopeBucketName = Some (Bkt sb)"
    unfolding ns4 using sb names_distinct(4) by (simp add: map_of_mapNested_other)
  have ls: "lookupB ns4 [scopeBucketName] = Some ([] @ sb)" by (simp add: sb4)
  have fe: "bucket_ForEach ns4 (NestedReadWriteBucket ns4 [] scopeBucketName) = Inr (forEachPairs sb)"
    by (simp add: bucket_ForEach_def NestedReadWriteBucket_def sb4)
  have "deleteScopeKeys [scopeBucketName] (forEachPairs sb) ns4
        = (None, modifyB (\<lambda>_. [] @ clearScopes sb) ns4 [scopeBucketName])"
    using sok by (intro deleteScopeKeys_loop[OF ls]) (simp_all add: scopes_ok_def)
  also have "modifyB (\<lambda>_. [] @ clearScopes sb) ns4 [scopeBucketName]
             = modifyB clearScopes ns4 [scopeBucketName]"
    using ls by (intro modifyB_cong_at[where c = sb]) simp_all
  also have "\<dots> = mapNested scopeBucketName clearScopes ns4"
    using modifyB_snoc[of clearScopes ns4 "[]" scopeBucketName] by simp
  finally have sc: "deleteScopeKeys [scopeBucketName] (forEachPairs sb) ns4
        = (None, withoutPrivateKeys ns)"
    by (simp add: withoutPrivateKeys_def ns4)
  show ?thesis
    unfolding deletePrivateKeys_def by (simp add: nest d1 d2 d3 d4 fe sc)
qed

subsection \<open>Rows read back\<close>

lemma readUint32At_at:
  assumes "length pre + 4 < 2 ^ 32"
  shows "readUint32At (pre @ uint32ToBytes w @ post) (of_nat (length pre))
         = Some (w, of_nat (length pre + 4))"
proof -
  have "unat (of_nat (length pre) :: 32 word) = length pre"
    using assms by (intro unat_of_nat32) simp
  from readUint32At_concat[OF this assms, of w post] show ?thesis by simp
qed

lemma readBytesAt_at:
  assumes "length pre + length bs < 2 ^ 32"
  shows "readBytesAt (pre @ bs @ post) (of_nat (length pre)) (of_nat (length bs))
         = Some (bs, of_nat (length pre + length bs))"
proof -
  have "unat (of_nat (length pre) :: 32 word) = length pre"
    "unat (of_nat (length bs) :: 32 word) = length bs"
    using assms by (simp_all add: unat_of_nat32)
  from readBytesAt_concat[OF this assms, of post] show ?thesis by simp
qed

lemma deserializeDefaultAccountRow_serialize:
  assumes "20 + length pub + length priv + length nm < 2 ^ 32"
  shows "deserializeDefaultAccountRow
           \<lparr>acctType = t, rawData = serializeDefaultAccountRow pub priv nxe nint nm\<rparr>
         = Inr \<lparr>acctType = t, rawData = serializeDefaultAccountRow pub priv nxe nint nm,
                pubKeyEncrypted = pub, privKeyEncrypted = priv,
                nextExternalIndex = nxe, nextInternalIndex = nint, name = nm\<rparr>"
proof -
  define s where "s = serializeDefaultAccountRow pub priv nxe nint nm"
  define p1 where "p1 = uint32ToBytes (of_nat (length pub))"
  define p2 where "p2 = p1 @ pub"
  define p3 where "p3 = p2 @ uint32ToBytes (of_nat (length priv))"
  define p4 where "p4 = p3 @ priv"
  define p5 where "p5 = p4 @ uint32ToBytes nxe"
  define p6 where "p6 = p5 @ uint32ToBytes nint"
  define p7 where "p7 = p6 @ uint32ToBytes (of_nat (length nm))"
  note ps = p1_def p2_def p3_def p4_def p5_def p6_def p7_def
  have len: "length p1 = 4" "length p2 = 4 + length pub" "length p3 = 8 + length pub"
    "length p4 = 8 + length pub + length priv" "length p5 = 12 + length pub + length priv"
    "length p6 = 16 + length pub + length priv" "length p7 = 20 + length pub + length priv"
    by (simp_all add: ps)
  have s: "s = p7 @ nm @ []" "length s = 20 + length pub + length priv + length nm"
    by (simp_all add: s_def serializeDefaultAccountRow_def ps)
  have r1: "readUint32At s 0 = Some (of_nat (length pub), of_nat (length p1))"
    using readUint32At_at[of "[]" "of_nat (length pub)" "pub @ uint32ToBytes (of_nat (length priv))
        @ priv @ uint32ToBytes nxe @ uint32ToBytes nint @ uint32ToBytes (of_nat (length nm)) @ nm"]
    by (simp add: s_def serializeDefaultAccountRow_def ps)
  have r2: "readBytesAt s (of_nat (length p1)) (of_nat (length pub)) = Some (pub, of_nat (length p2))"
    using readBytesAt_at[of p1 pub "uint32ToBytes (of_nat (length priv))
        @ priv @ uint32ToBytes nxe @ uint32ToBytes nint @ uint32ToBytes (of_nat (length nm)) @ nm"] assms
    by (simp add: s_def serializeDefaultAccountRow_def ps)
  have r3: "readUint32At s (of_nat (length p2)) = Some (of_nat (length priv), of_nat (length p3))"
    using readUint32At_at[of p2 "of_nat (length priv)"
        "priv @ uint32ToBytes nxe @ uint32ToBytes nint @ uint32ToBytes (of_nat (length nm)) @ nm"] assms
    by (simp add: s_def serializeDefaultAccountRow_def ps)
  have r4: "readBytesAt s (of_nat (length p3)) (of_nat (length priv)) = Some (priv, of_nat (length p4))"
    using readBytesAt_at[of p3 priv
        "uint32ToBytes nxe @ uint32ToBytes nint @ uint32ToBytes (of_nat (length nm)) @ nm"] assms
    by (simp add: s_def serializeDefaultAccountRow_def ps)
  have r5: "readUint32At s (of_nat (length p4)) = Some (nxe, of_nat (length p5))"
    using readUint32At_at[of p4 nxe "uint32ToBytes nint @ uint32ToBytes (of_nat (length nm)) @ nm"] assms
    by (simp add: s_def serializeDefaultAccountRow_def ps)
  have r6: "readUint32At s (of_nat (length p5)) = Some (nint, of_nat (length p6))"
    using readUint32At_at[of p5 nint "uint32ToBytes (of_nat (length nm)) @ nm"] assms
    by (simp add: s_def serializeDefaultAccountRow_def ps)
  have r7: "readUint32At s (of_nat (length p6)) = Some (of_nat (length nm), of_nat (length p7))"
    using readUint32At_at[of p6 "of_nat (length nm)" nm] assms
    by (simp add: s_def serializeDefaultAccountRow_def ps)
  have r8: "readBytesAt s (of_nat (length p7)) (of_nat (length nm)) = Some (nm, of_nat (length p7 + length nm))"
    using readBytesAt_at[of p7 nm "[]"] assms len(7) unfolding s(1) by simp
  have "deserializeDefaultAccountRow \<lparr>acctType = t, rawData = s\<rparr>
         = Inr \<lparr>acctType = t, rawData = s,
                pubKeyEncrypted = pub, privKeyEncrypted = priv,
                nextExternalIndex = nxe, nextInternalIndex = nint, name = nm\<rparr>"
    unfolding deserializeDefaultAccountRow_def
    by (simp add: r1 r2 r3 r4 r5 r6 r7 r8 s(2))
  then show ?thesis by (simp add: s_def)
qed

lemma deserializeDefaultAccountRow_bounds:
  assumes "deserializeDefaultAccountRow row = Inr arow"
  shows "20 + length (pubKeyEncrypted arow) + length (privKeyEncrypted arow) + length (name arow)
         \<le> length (rawData row)"
    "20 + length (pubKeyEncrypted arow) + length (privKeyEncrypted arow) + length (name arow) < 2 ^ 32"
    "acctType arow = acctType row"
proof -
  from assms obtain pubLen o1 pub o2 privLen o3 priv o4 nxe o5 nint o6 nameLen o7 nm o8 where
    r1: "readUint32At (rawData row) 0 = Some (pubLen, o1)" and
    r2: "readBytesAt (rawData row) o1 pubLen = Some (pub, o2)" and
    r3: "readUint32At (rawData row) o2 = Some (privLen, o3)" and
    r4: "readBytesAt (rawData row) o3 privLen = Some (priv, o4)" and
    r5: "readUint32At (rawData row) o4 = Some (nxe, o5)" and
    r6: "readUint32At (rawData row) o5 = Some (nint, o6)" and
    r7: "readUint32At (rawData row) o6 = Some (nameLen, o7)" and
    r8: "readBytesAt (rawData row) o7 nameLen = Some (nm, o8)" and
    arow: "arow = \<lparr> acctType = acctType row, rawData = rawData row,
                              pubKeyEncrypted = pub, privKeyEncrypted = priv,
                              nextExternalIndex = nxe, nextInternalIndex = nint,
                              name = nm \<rparr>"
    unfolding deserializeDefaultAccountRow_def
    by (auto split: if_splits option.splits)
  have "unat o8 = 20 + length pub + length priv + length nm"
    using readUint32At_SomeD(2)[OF r1] readBytesAt_SomeD(2,4)[OF r2] readUint32At_SomeD(2)[OF r3]
      readBytesAt_SomeD(2,4)[OF r4] readUint32At_SomeD(2)[OF r5] readUint32At_SomeD(2)[OF r6]
      readUint32At_SomeD(2)[OF r7] readBytesAt_SomeD(2,4)[OF r8]
    by simp
  moreover have "unat o8 < 2 ^ 32" using unsigned_less[of o8] by simp
  moreover have "unat o8 \<le> length (rawData row)" by (rule readBytesAt_SomeD(3)[OF r8])
  ultimately show "20 + length (pubKeyEncrypted arow) + length (privKeyEncrypted arow) + length (name arow)
         \<le> length (rawData row)"
    "20 + length (pubKeyEncrypted arow) + length (privKeyEncrypted arow) + length (name arow) < 2 ^ 32"
    by (simp_all add: arow)
  show "acctType arow = acctType row" by (simp add: arow)
qed

lemma deserializeAccountRow_bounds:
  assumes "deserializeAccountRow sv = Inr row"
  shows "5 + length (rawData row) < 2 ^ 32" "5 + length (rawData row) \<le> length sv"
proof -
  define rdlen where "rdlen = Uint32 (take 4 (drop 1 sv))"
  from assms obtain raw where g: "goSlice sv 5 (unat (5 + rdlen)) = Some raw"
    and row: "row = \<lparr> acctType = sv ! 0, rawData = raw \<rparr>"
    unfolding deserializeAccountRow_def rdlen_def
    by (auto simp: Let_def split: if_splits option.splits)
  from g have "5 \<le> unat (5 + rdlen)" "unat (5 + rdlen) \<le> length sv"
    "length raw = unat (5 + rdlen) - 5"
    by (auto simp: goSlice_Some)
  moreover have "unat (5 + rdlen) < 2 ^ 32" using unsigned_less[of "5 + rdlen"] by simp
  ultimately show "5 + length (rawData row) < 2 ^ 32" "5 + length (rawData row) \<le> length sv"
    by (simp_all add: row)
qed

lemma deserializeAccountRow_serialize:
  assumes "5 + length raw < 2 ^ 32"
  shows "deserializeAccountRow (serializeAccountRow \<lparr>acctType = t, rawData = raw\<rparr>)
         = Inr \<lparr>acctType = t, rawData = raw\<rparr>"
proof -
  have u: "unat (of_nat (length raw) :: 32 word) = length raw"
    using assms by (intro unat_of_nat32) simp
  have "unat (5 :: 32 word) + unat (of_nat (length raw) :: 32 word) < 2 ^ 32"
    using assms u by simp
  then have e: "unat (5 + of_nat (length raw) :: 32 word) = 5 + length raw"
    using unat_add_lem[of "5 :: 32 word" "of_nat (length raw)"] u by simp
  show ?thesis
    by (simp add: deserializeAccountRow_def serializeAccountRow_def goSlice_def e)
qed

lemma deserializeAddressRow_bounds:
  assumes "deserializeAddressRow sv = Inr row"
  shows "18 + length (addrRawData row) < 2 ^ 32" "18 + length (addrRawData row) \<le> length sv"
proof -
  define rdlen where "rdlen = Uint32 (take 4 (drop 14 sv))"
  from assms obtain raw where g: "goSlice sv 18 (unat (18 + rdlen)) = Some raw"
    and row: "addrRawData row = raw"
    unfolding deserializeAddressRow_def rdlen_def
    by (auto simp: Let_def split: if_splits option.splits)
  from g have "18 \<le> unat (18 + rdlen)" "unat (18 + rdlen) \<le> length sv"
    "length raw = unat (18 + rdlen) - 18"
    by (auto simp: goSlice_Some)
  moreover have "unat (18 + rdlen) < 2 ^ 32" using unsigned_less[of "18 + rdlen"] by simp
  ultimately show "18 + length (addrRawData row) < 2 ^ 32" "18 + length (addrRawData row) \<le> length sv"
    by (simp_all add: row)
qed

lemma deserializeAddressRow_serialize:
  assumes "18 + length (addrRawData row) < 2 ^ 32"
  shows "deserializeAddressRow (serializeAddressRow row) = Inr row"
proof -
  define raw where "raw = addrRawData row"
  have u: "unat (of_nat (length raw) :: 32 word) = length raw"
    using assms by (intro unat_of_nat32) (simp add: raw_def)
  have "unat (18 :: 32 word) + unat (of_nat (length raw) :: 32 word) < 2 ^ 32"
    using assms u by (simp add: raw_def)
  then have e: "unat (18 + of_nat (length raw) :: 32 word) = 18 + length raw"
    using unat_add_lem[of "18 :: 32 word" "of_nat (length raw)"] u by simp
  define s where "s = serializeAddressRow row"
  have s: "s = addrType row # (uint32ToBytes (account row) @ (PutUint64 (addTime row)
     @ (syncStatus row # (uint32ToBytes (of_nat (length raw)) @ raw))))"
    by (simp add: s_def serializeAddressRow_def raw_def)
  have f0: "s ! 0 = addrType row" by (simp add: s)
  have f1: "drop 1 s = uint32ToBytes (account row) @ (PutUint64 (addTime row)
     @ (syncStatus row # (uint32ToBytes (of_nat (length raw)) @ raw)))" by (simp add: s)
  have f5: "drop 5 s = PutUint64 (addTime row)
     @ (syncStatus row # (uint32ToBytes (of_nat (length raw)) @ raw))" by (simp add: s)
  have f13: "s ! 13 = syncStatus row" by (simp add: s nth_append nth_Cons')
  have f14: "drop 14 s = uint32ToBytes (of_nat (length raw)) @ raw" by (simp add: s)
  have f18: "drop 18 s = raw" by (simp add: s)
  have len: "length s = 18 + length raw" by (simp add: s)
  have a1: "Uint32 (take 4 (drop 1 s)) = account row" unfolding f1 by simp
  have a5: "Uint64 (take 8 (drop 5 s)) = addTime row" unfolding f5 by simp
  have a14: "Uint32 (take 4 (drop 14 s)) = of_nat (length raw)" unfolding f14 by simp
  have a1': "Uint32 (take 4 (drop (Suc 0) s)) = account row" using a1 by simp
  note facts = len a1' a5 a14 f0 f13 f18 e
  have "deserializeAddressRow s = Inr row"
    unfolding deserializeAddressRow_def
    by (simp add: Let_def facts[unfolded raw_def] goSlice_def)
  then show ?thesis by (simp add: s_def)
qed

lemma two_fields_serialize:
  assumes "8 + length a + length b < 2 ^ 32"
  defines "s \<equiv> uint32ToBytes (of_nat (length a)) @ a @ uint32ToBytes (of_nat (length b)) @ b"
  shows "readUint32At s 0 = Some (of_nat (length a), 4)"
    "readBytesAt s 4 (of_nat (length a)) = Some (a, 4 + of_nat (length a))"
    "readUint32At s (4 + of_nat (length a)) = Some (of_nat (length b), 8 + of_nat (length a))"
    "readBytesAt s (8 + of_nat (length a)) (of_nat (length b))
       = Some (b, 8 + of_nat (length a) + of_nat (length b))"
    "length s = 8 + length a + length b"
proof -
  show "readUint32At s 0 = Some (of_nat (length a), 4)"
    using readUint32At_at[of "[]" "of_nat (length a)" "a @ uint32ToBytes (of_nat (length b)) @ b"]
    by (simp add: s_def)
  show "readBytesAt s 4 (of_nat (length a)) = Some (a, 4 + of_nat (length a))"
    using readBytesAt_at[of "uint32ToBytes (of_nat (length a))" a "uint32ToBytes (of_nat (length b)) @ b"]
      assms(1) by (simp add: s_def)
  show "readUint32At s (4 + of_nat (length a)) = Some (of_nat (length b), 8 + of_nat (length a))"
    using readUint32At_at[of "uint32ToBytes (of_nat (length a)) @ a" "of_nat (length b)" b]
      assms(1) by (simp add: s_def)
  show "readBytesAt s (8 + of_nat (length a)) (of_nat (length b))
       = Some (b, 8 + of_nat (length a) + of_nat (length b))"
    using readBytesAt_at[of "uint32ToBytes (of_nat (length a)) @ a @ uint32ToBytes (of_nat (length b))" b "[]"]
      assms(1) by (simp add: s_def)
  show "length s = 8 + length a + length b" by (simp add: s_def)
qed

lemma deserializeImportedAddress_serialize:
  assumes "8 + length pub + length priv < 2 ^ 32"
    and "addrRawData row = serializeImportedAddress pub priv"
  shows "deserializeImportedAddress row
         = Inr \<lparr>addTime = addTime row, addrRawData = addrRawData row, account = account row,
                syncStatus = syncStatus row, addrType = addrType row,
                encryptedPubKey = pub, encryptedPrivKey = priv\<rparr>"
  unfolding deserializeImportedAddress_def assms(2) serializeImportedAddress_def
  using two_fields_serialize[OF assms(1)] by simp

lemma deserializeScriptAddress_serialize:
  assumes "8 + length hsh + length scr < 2 ^ 32"
    and "addrRawData row = serializeScriptAddress hsh scr"
  shows "deserializeScriptAddress row
         = Inr \<lparr>addTime = addTime row, addrRawData = addrRawData row, account = account row,
                syncStatus = syncStatus row, addrType = addrType row,
                encryptedHash = hsh, encryptedScript = scr\<rparr>"
  unfolding deserializeScriptAddress_def assms(2) serializeScriptAddress_def
  using two_fields_serialize[OF assms(1)] by simp

lemma two_fields_bounds:
  assumes "readUint32At s 0 = Some (aLen, o1)" "readBytesAt s o1 aLen = Some (a, o2)"
    "readUint32At s o2 = Some (bLen, o3)" "readBytesAt s o3 bLen = Some (b, o4)"
  shows "8 + length a + length b \<le> length s" "8 + length a + length b < 2 ^ 32"
proof -
  have "unat o4 = 8 + length a + length b"
    using readUint32At_SomeD(2)[OF assms(1)] readBytesAt_SomeD(2,4)[OF assms(2)]
      readUint32At_SomeD(2)[OF assms(3)] readBytesAt_SomeD(2,4)[OF assms(4)]
    by simp
  moreover have "unat o4 < 2 ^ 32" using unsigned_less[of o4] by simp
  moreover have "unat o4 \<le> length s" by (rule readBytesAt_SomeD(3)[OF assms(4)])
  ultimately show "8 + length a + length b \<le> length s" "8 + length a + length b < 2 ^ 32"
    by simp_all
qed

lemma deserializeImportedAddress_bounds:
  assumes "deserializeImportedAddress row = Inr irow"
  shows "8 + length (encryptedPubKey irow) + length (encryptedPrivKey irow) \<le> length (addrRawData row)"
    "8 + length (encryptedPubKey irow) + length (encryptedPrivKey irow) < 2 ^ 32"
    "dbAddressRow.truncate irow = row"
proof -
  from assms obtain aLen o1 a o2 bLen o3 b o4 where
    r: "readUint32At (addrRawData row) 0 = Some (aLen, o1)"
       "readBytesAt (addrRawData row) o1 aLen = Some (a, o2)"
       "readUint32At (addrRawData row) o2 = Some (bLen, o3)"
       "readBytesAt (addrRawData row) o3 bLen = Some (b, o4)" and
    irow: "irow = \<lparr>addTime = addTime row, addrRawData = addrRawData row, account = account row,
                syncStatus = syncStatus row, addrType = addrType row,
                encryptedPubKey = a, encryptedPrivKey = b\<rparr>"
    unfolding deserializeImportedAddress_def
    by (auto split: if_splits option.splits)
  from two_fields_bounds[OF r]
  show "8 + length (encryptedPubKey irow) + length (encryptedPrivKey irow) \<le> length (addrRawData row)"
    "8 + length (encryptedPubKey irow) + length (encryptedPrivKey irow) < 2 ^ 32"
    by (simp_all add: irow)
  show "dbAddressRow.truncate irow = row" by (simp add: irow dbAddressRow.truncate_def)
qed

lemma deserializeScriptAddress_bounds:
  assumes "deserializeScriptAddress row = Inr srow"
  shows "8 + length (encryptedHash srow) + length (encryptedScript srow) \<le> length (addrRawData row)"
    "8 + length (encryptedHash srow) + length (encryptedScript srow) < 2 ^ 32"
proof -
  from assms obtain aLen o1 a o2 bLen o3 b o4 where
    r: "readUint32At (addrRawData row) 0 = Some (aLen, o1)"
       "readBytesAt (addrRawData row) o1 aLen = Some (a, o2)"
       "readUint32At (addrRawData row) o2 = Some (bLen, o3)"
       "readBytesAt (addrRawData row) o3 bLen = Some (b, o4)" and
    srow: "srow = \<lparr>addTime = addTime row, addrRawData = addrRawData row, account = account row,
                syncStatus = syncStatus row, addrType = addrType row,
                encryptedHash = a, encryptedScript = b\<rparr>"
    unfolding deserializeScriptAddress_def
    by (auto split: if_splits option.splits)
  from two_fields_bounds[OF r]
  show "8 + length (encryptedHash srow) + length (encryptedScript srow) \<le> length (addrRawData row)"
    "8 + length (encryptedHash srow) + length (encryptedScript srow) < 2 ^ 32"
    by (simp_all add: srow)
qed

lemma clearAccountRow_cleared:
  assumes "accountRowReadable sv"
  shows "accountRowCleared sv (clearAccountRow sv)"
proof -
  from assms obtain row where row: "deserializeAccountRow sv = Inr row"
    by (auto simp: accountRowReadable_def split: sum.splits)
  show ?thesis
  proof (cases "acctType row = accountDefault")
    case False
    then show ?thesis by (simp add: accountRowCleared_def clearAccountRow_def row)
  next
    case True
    with assms row obtain arow where arow: "deserializeDefaultAccountRow row = Inr arow"
      by (cases "deserializeDefaultAccountRow row") (auto simp: accountRowReadable_def)
    define raw' where "raw' = serializeDefaultAccountRow (pubKeyEncrypted arow) []
                    (nextExternalIndex arow) (nextInternalIndex arow) (name arow)"
    have clr: "clearAccountRow sv = serializeAccountRow \<lparr>acctType = accountDefault, rawData = raw'\<rparr>"
      using True row arow by (cases row) (simp add: clearAccountRow_def raw'_def)
    have b: "20 + length (pubKeyEncrypted arow) + length ([] :: byte list) + length (name arow) < 2 ^ 32"
      using deserializeDefaultAccountRow_bounds(2)[OF arow] by simp
    have lr: "length raw' = 20 + length (pubKeyEncrypted arow) + length (name arow)"
      by (simp add: raw'_def serializeDefaultAccountRow_def)
    have "5 + length raw' < 2 ^ 32"
      using deserializeDefaultAccountRow_bounds(1)[OF arow] deserializeAccountRow_bounds(1)[OF row] lr
      by simp
    from deserializeAccountRow_serialize[OF this]
    have d1: "deserializeAccountRow (clearAccountRow sv) = Inr \<lparr>acctType = accountDefault, rawData = raw'\<rparr>"
      by (simp add: clr)
    have d2: "deserializeDefaultAccountRow \<lparr>acctType = accountDefault, rawData = raw'\<rparr>
        = Inr \<lparr>acctType = accountDefault, rawData = raw',
                pubKeyEncrypted = pubKeyEncrypted arow, privKeyEncrypted = [],
                nextExternalIndex = nextExternalIndex arow,
                nextInternalIndex = nextInternalIndex arow, name = name arow\<rparr>"
      unfolding raw'_def by (rule deserializeDefaultAccountRow_serialize[OF b])
    show ?thesis using True by (simp add: accountRowCleared_def row arow d1 d2)
  qed
qed

lemma clearAddressRow_cleared:
  assumes "addressRowReadable sv"
  shows "addressRowCleared sv (clearAddressRow sv)"
proof -
  from assms obtain row where row: "deserializeAddressRow sv = Inr row"
    by (auto simp: addressRowReadable_def split: sum.splits)
  consider (imp) "addrType row = adtImport" | (scr) "addrType row = adtScript"
    | (other) "addrType row \<noteq> adtImport" "addrType row \<noteq> adtScript" by blast
  then show ?thesis
  proof cases
    case other
    then show ?thesis by (simp add: addressRowCleared_def clearAddressRow_def row)
  next
    case imp
    with assms row obtain irow where irow: "deserializeImportedAddress row = Inr irow"
      by (cases "deserializeImportedAddress row") (auto simp: addressRowReadable_def)
    define raw' where "raw' = serializeImportedAddress (encryptedPubKey irow) []"
    define row' where "row' = row\<lparr>addrRawData := raw'\<rparr>"
    have clr: "clearAddressRow sv = serializeAddressRow row'"
      using imp by (simp add: clearAddressRow_def row irow raw'_def row'_def)
    have b: "8 + length (encryptedPubKey irow) + length ([] :: byte list) < 2 ^ 32"
      using deserializeImportedAddress_bounds(2)[OF irow] by simp
    have lr: "length raw' = 8 + length (encryptedPubKey irow)"
      by (simp add: raw'_def serializeImportedAddress_def)
    have "18 + length (addrRawData row') < 2 ^ 32"
      using deserializeImportedAddress_bounds(1)[OF irow] deserializeAddressRow_bounds(1)[OF row] lr
      by (simp add: row'_def)
    from deserializeAddressRow_serialize[OF this]
    have d1: "deserializeAddressRow (clearAddressRow sv) = Inr row'" by (simp add: clr)
    have d2: "deserializeImportedAddress row'
         = Inr \<lparr>addTime = addTime row', addrRawData = addrRawData row', account = account row',
                syncStatus = syncStatus row', addrType = addrType row',
                encryptedPubKey = encryptedPubKey irow, encryptedPrivKey = []\<rparr>"
      by (rule deserializeImportedAddress_serialize[OF b]) (simp add: row'_def raw'_def)
    show ?thesis using imp
      by (simp add: addressRowCleared_def row irow d1 d2 sameAddress_def) (simp add: row'_def)
  next
    case scr
    then have ni: "addrType row \<noteq> adtImport" by (simp add: adtImport_def adtScript_def)
    from scr assms row obtain srow where srow: "deserializeScriptAddress row = Inr srow"
      by (cases "deserializeScriptAddress row") (auto simp: addressRowReadable_def)
    define raw' where "raw' = serializeScriptAddress (encryptedHash srow) []"
    define row' where "row' = row\<lparr>addrRawData := raw'\<rparr>"
    have clr: "clearAddressRow sv = serializeAddressRow row'"
      using scr ni by (simp add: clearAddressRow_def row srow raw'_def row'_def)
    have b: "8 + length (encryptedHash srow) + length ([] :: byte list) < 2 ^ 32"
      using deserializeScriptAddress_bounds(2)[OF srow] by simp
    have lr: "length raw' = 8 + length (encryptedHash srow)"
      by (simp add: raw'_def serializeScriptAddress_def)
    have "18 + length (addrRawData row') < 2 ^ 32"
      using deserializeScriptAddress_bounds(1)[OF srow] deserializeAddressRow_bounds(1)[OF row] lr
      by (simp add: row'_def)
    from deserializeAddressRow_serialize[OF this]
    have d1: "deserializeAddressRow (clearAddressRow sv) = Inr row'" by (simp add: clr)
    have d2: "deserializeScriptAddress row'
         = Inr \<lparr>addTime = addTime row', addrRawData = addrRawData row', account = account row',
                syncStatus = syncStatus row', addrType = addrType row',
                encryptedHash = encryptedHash srow, encryptedScript = []\<rparr>"
      by (rule deserializeScriptAddress_serialize[OF b]) (simp add: row'_def raw'_def)
    show ?thesis using scr ni
      by (simp add: addressRowCleared_def row srow d1 d2 sameAddress_def) (simp add: row'_def)
  qed
qed

lemma names_eval:
  "mainBucketName = [109, 97, 105, 110]"
  "scopeBucketName = [115, 99, 111, 112, 101]"
  "masterPrivKeyName = [109, 112, 114, 105, 118]"
  "masterPubKeyName = [109, 112, 117, 98]"
  "cryptoPrivKeyName = [99, 112, 114, 105, 118]"
  "cryptoPubKeyName = [99, 112, 117, 98]"
  "cryptoScriptKeyName = [99, 115, 99, 114, 105, 112, 116]"
  "masterHDPrivName = [109, 104, 100, 112, 114, 105, 118]"
  "masterHDPubName = [109, 104, 100, 112, 117, 98]"
  "coinTypePrivKeyName = [99, 116, 112, 114, 105, 118]"
  "coinTypePubKeyName = [99, 116, 112, 117, 98]"
  "acctBucketName = [97, 99, 99, 116]"
  "addrBucketName = [97, 100, 100, 114]"
  "usedAddrBucketName = [117, 115, 101, 100, 97, 100, 100, 114, 115]"
  "mgrVersionName = [109, 103, 114, 118, 101, 114]"
  "scope_key_44 = [44, 0, 0, 0, 0, 0, 0, 0]"
  by code_simp+




lemma length_serializers [simp]:
  "length (serializeDefaultAccountRow pub priv nxe nint nm) = 20 + length pub + length priv + length nm"
  "length (serializeImportedAddress pub priv) = 8 + length pub + length priv"
  "length (serializeScriptAddress hsh scr) = 8 + length hsh + length scr"
  by (simp_all add: serializeDefaultAccountRow_def serializeImportedAddress_def
      serializeScriptAddress_def)

lemma deserializeImportedAddress_literal:
  "8 + length pub + length priv < 2 ^ 32 \<Longrightarrow>
   deserializeImportedAddress \<lparr>addTime = t, addrRawData = serializeImportedAddress pub priv,
       account = a, syncStatus = st, addrType = ty\<rparr>
   = Inr \<lparr>addTime = t, addrRawData = serializeImportedAddress pub priv, account = a,
          syncStatus = st, addrType = ty, encryptedPubKey = pub, encryptedPrivKey = priv\<rparr>"
  using deserializeImportedAddress_serialize[of pub priv "\<lparr>addTime = t,
       addrRawData = serializeImportedAddress pub priv, account = a, syncStatus = st,
       addrType = ty\<rparr>"] by simp

lemma deserializeScriptAddress_literal:
  "8 + length hsh + length scr < 2 ^ 32 \<Longrightarrow>
   deserializeScriptAddress \<lparr>addTime = t, addrRawData = serializeScriptAddress hsh scr,
       account = a, syncStatus = st, addrType = ty\<rparr>
   = Inr \<lparr>addTime = t, addrRawData = serializeScriptAddress hsh scr, account = a,
          syncStatus = st, addrType = ty, encryptedHash = hsh, encryptedScript = scr\<rparr>"
  using deserializeScriptAddress_serialize[of hsh scr "\<lparr>addTime = t,
       addrRawData = serializeScriptAddress hsh scr, account = a, syncStatus = st,
       addrType = ty\<rparr>"] by simp

lemmas row_roundtrip = deserializeAccountRow_serialize deserializeDefaultAccountRow_serialize
  deserializeAddressRow_serialize deserializeImportedAddress_literal
  deserializeScriptAddress_literal

lemmas row_defs = account_row_full_def account_row_watching_def chain_row_def
  imported_row_full_def imported_row_watching_def script_row_full_def script_row_watching_def
  accountDefault_def adtChain_def adtImport_def adtScript_def

lemma rows_eval:
  "accountRowReadable account_row_full"
  "addressRowReadable chain_row"
  "addressRowReadable imported_row_full"
  "addressRowReadable script_row_full"
  "clearAccountRow account_row_full = account_row_watching"
  "clearAddressRow chain_row = chain_row"
  "clearAddressRow imported_row_full = imported_row_watching"
  "clearAddressRow script_row_full = script_row_watching"
  by (simp_all add: accountRowReadable_def addressRowReadable_def clearAccountRow_def
      clearAddressRow_def row_defs row_roundtrip)

lemma wallet_full_ok: "wallet_ok wallet_full"
  by (simp add: wallet_ok_def wallet_full_def scopes_ok_def scope_ok_def rows_ok_def keys_ok_def
      not_bucket_def names_eval rows_eval)

lemma wallet_full_watching: "withoutPrivateKeys wallet_full = wallet_watching"
  by (simp add: withoutPrivateKeys_def wallet_full_def wallet_watching_def mapNested_def
      clearMain_def clearScopes_def clearScope_def mapValues_def names_eval rows_eval)

subsection \<open>deletePrivateKeys\<close>

text \<open>
  Claim C3.  On a store that \<open>deletePrivateKeys\<close> can walk (\<open>wallet_ok\<close>: the main and the scope
  bucket are there, every scope has its account and address bucket, and every row in them
  can be read) the call returns no error and leaves the store \<open>withoutPrivateKeys\<close>: in the
  main bucket the master private key parameters, the crypto private key, the crypto script
  key and the master HD private key are gone, in every scope the coin-type private key is
  gone, every account row and every address row is the row with its private slot emptied, and
  every other key, value and bucket of the store is as it was, in the same order.  A row with
  its private slot emptied reads back with the same public fields: a default account row with
  its encrypted public key, its two next-index counters and its name and with an empty
  encrypted private key; an imported address row with its account, added time, sync status
  and encrypted public key and with an empty encrypted private key; a script address row with
  its encrypted script hash and with an empty encrypted script; any other row unchanged.
\<close>

theorem C3_deletePrivateKeys:
  assumes "wallet_ok ns" and "accountRowReadable a" and "addressRowReadable d"
  shows "deletePrivateKeys ns = (None, withoutPrivateKeys ns)
         \<and> accountRowCleared a (clearAccountRow a)
         \<and> addressRowCleared d (clearAddressRow d)"
  using deletePrivateKeys_ok[OF assms(1)] clearAccountRow_cleared[OF assms(2)]
    clearAddressRow_cleared[OF assms(3)]
  by simp

theorem C3_deletePrivateKeys_witness:
  "wallet_ok wallet_full \<and> accountRowReadable account_row_full
   \<and> addressRowReadable script_row_full
   \<and> deletePrivateKeys wallet_full = (None, wallet_watching)
   \<and> accountRowCleared account_row_full account_row_watching
   \<and> addressRowCleared script_row_full script_row_watching"
  using C3_deletePrivateKeys[of wallet_full account_row_full script_row_full]
  by (simp add: wallet_full_ok wallet_full_watching rows_eval)

section \<open>Voting-pool key validation (claim C9)\<close>

text \<open>
  Claim C9.  For every pair of encrypted key lists of different lengths,
  \<open>validate_and_decrypt\<close> fails with \<open>PrivatePublicMismatch\<close>, and it has not called the
  decryptor on any key: the list of decryptor calls is empty.
\<close>

theorem C9_length_mismatch:
  "length enc_pubs \<noteq> length enc_privs \<Longrightarrow>
     validate_and_decrypt decrypt neuter enc_pubs enc_privs = (Inl PrivatePublicMismatch, [])"
  by (simp add: validate_and_decrypt_def)

theorem C9_length_mismatch_witness:
  "length [[1, 7 :: byte]] \<noteq> length ([] :: byte list list)
   \<and> validate_and_decrypt toy_decrypt toy_neuter [[1, 7]] [] = (Inl PrivatePublicMismatch, [])
   \<and> validate_and_decrypt toy_decrypt toy_neuter [[1, 7], [1, 9]] [[2, 6], []]
       = (Inr [([7], Some [6]), ([9], None)],
          [(CKTPublic, [1, 7]), (CKTPrivate, [2, 6]), (CKTPublic, [1, 9])])
   \<and> fst (validate_and_decrypt toy_decrypt toy_neuter [[1, 7]] [[2, 7]]) = Inl KeyMismatch
   \<and> fst (validate_and_decrypt toy_decrypt toy_neuter [[1, 7]] [[3, 6]]) = Inl Crypto"
proof -
  have h: "length [[1, 7 :: byte]] \<noteq> length ([] :: byte list list)" by simp
  have e: "validate_and_decrypt toy_decrypt toy_neuter [[1, 7], [1, 9]] [[2, 6], []]
       = (Inr [([7], Some [6]), ([9], None)],
          [(CKTPublic, [1, 7]), (CKTPrivate, [2, 6]), (CKTPublic, [1, 9])])"
    "fst (validate_and_decrypt toy_decrypt toy_neuter [[1, 7]] [[2, 7]]) = Inl KeyMismatch"
    "fst (validate_and_decrypt toy_decrypt toy_neuter [[1, 7]] [[3, 6]]) = Inl Crypto"
    by (simp_all add: validate_and_decrypt_def decrypt_slot_def toy_decrypt_def toy_neuter_def)
  show ?thesis
    using h e C9_length_mismatch [OF h, of toy_decrypt toy_neuter] by simp
qed

section \<open>Block header store (claims C5 and C6)\<close>

subsection \<open>Auxiliary facts\<close>

lemma write_headers_file: "hs_file (write_headers H st recs) = hs_file st @ concat recs"
  unfolding write_headers_def
  by (induction recs arbitrary: st) (simp_all add: write_header_def)

lemma write_headers_snoc:
  "write_headers H st (recs @ [r]) = write_header H (write_headers H st recs) r"
  by (simp add: write_headers_def)

lemma write_headers_tip_height:
  "tip_height st = Some t \<Longrightarrow> tip_height (write_headers H st recs) = Some (t + length recs)"
proof (induction recs rule: rev_induct)
  case Nil
  then show ?case by (simp add: write_headers_def)
next
  case (snoc r recs)
  then show ?case
    unfolding write_headers_snoc by (simp add: write_header_def tip_height_def)
qed

lemma write_headers_tip:
  "recs \<noteq> [] \<Longrightarrow> hs_tip (write_headers H st recs) = H (last recs)"
  by (cases recs rule: rev_cases) (simp_all add: write_headers_snoc write_header_def)

lemma read_record_concat:
  assumes "list_all (\<lambda>r. length r = stride) recs" "1 \<le> h" "h \<le> length recs"
  shows "read_record (concat recs) h = recs ! (h - 1)"
  using assms
proof (induction recs arbitrary: h)
  case Nil
  then show ?case by simp
next
  case (Cons r recs)
  show ?case
  proof (cases "h = 1")
    case True
    with Cons.prems show ?thesis by (simp add: read_record_def)
  next
    case False
    then have h: "2 \<le> h" using Cons.prems by simp
    have "(h - 1) * stride = stride + (h - 1 - 1) * stride"
      using h by (cases h) (auto simp: algebra_simps)
    then have "read_record (concat (r # recs)) h = read_record (concat recs) (h - 1)"
      using Cons.prems(1) by (simp add: read_record_def)
    also have "\<dots> = recs ! (h - 1 - 1)" using Cons h by (intro Cons.IH) auto
    also have "\<dots> = (r # recs) ! (h - 1)" using h by (cases h) auto
    finally show ?thesis .
  qed
qed

lemma length_10:
  assumes "length hs = 10"
  obtains h0 h1 h2 h3 h4 h5 h6 h7 h8 h9 where "hs = [h0, h1, h2, h3, h4, h5, h6, h7, h8, h9]"
  using assms by (auto simp: numeral_eq_Suc length_Suc_conv)

lemma open_store_truncates:
  assumes "tip_height st = Some t" "t < length (hs_file st) div stride"
  shows "open_store st = Inr (st\<lparr> hs_file := take (t * stride) (hs_file st) \<rparr>)"
    and "length (take (t * stride) (hs_file st)) = t * stride"
    and "tip_height (st\<lparr> hs_file := take (t * stride) (hs_file st) \<rparr>) = Some t"
proof -
  show "open_store st = Inr (st\<lparr> hs_file := take (t * stride) (hs_file st) \<rparr>)"
    using assms by (simp add: open_store_def)
  have "t * stride \<le> (length (hs_file st) div stride) * stride" using assms(2) by simp
  also have "\<dots> \<le> length (hs_file st)" by simp
  finally show "length (take (t * stride) (hs_file st)) = t * stride" by simp
  show "tip_height (st\<lparr> hs_file := take (t * stride) (hs_file st) \<rparr>) = Some t"
    using assms(1) by (simp add: tip_height_def)
qed

lemma recovery_10:
  assumes "length hs = 10" "list_all (\<lambda>r. length r = stride) hs" "distinct (map H hs)"
  shows "\<exists>st'. open_store (truncate_5 H hs (write_headers H (new_store g) hs)) = Inr st'
            \<and> chain_tip st' = Inr (hs ! 4, 5) \<and> length (hs_file st') = 5 * stride"
proof -
  obtain h0 h1 h2 h3 h4 h5 h6 h7 h8 h9 where hs: "hs = [h0, h1, h2, h3, h4, h5, h6, h7, h8, h9]"
    using length_10[OF assms(1)] by blast
  define st where "st = truncate_5 H hs (write_headers H (new_store g) hs)"
  have f: "hs_file st = concat hs"
    unfolding st_def truncate_5_def
    by (simp add: upt_rec[of 0] upt_rec[of _ 5] numeral_eq_Suc truncate_index_def write_headers_file new_store_def)
  have idx: "hs_index (write_headers H (new_store g) hs) =
     [(H h9, 10), (H h8, 9), (H h7, 8), (H h6, 7), (H h5, 6), (H h4, 5), (H h3, 4), (H h2, 3), (H h1, 2), (H h0, 1), (g, 0)]"
    "hs_tip (write_headers H (new_store g) hs) = H h9"
    unfolding hs by (simp_all add: write_headers_def write_header_def new_store_def tip_height_def)
  have t: "tip_height st = Some 5"
    unfolding st_def truncate_5_def tip_height_def
    using assms(3) idx unfolding hs
    by (simp add: upt_rec[of 0] upt_rec[of _ 5] numeral_eq_Suc truncate_index_def)
  have len: "length (hs_file st) = 10 * stride"
    unfolding f using assms(2) unfolding hs by simp
  have sp: "0 < stride" by (simp add: stride_def)
  have lt: "5 < length (hs_file st) div stride" using len sp by simp
  let ?st' = "st\<lparr> hs_file := take (5 * stride) (hs_file st) \<rparr>"
  have o: "open_store st = Inr ?st'" by (rule open_store_truncates(1)[OF t lt])
  have l: "length (hs_file ?st') = 5 * stride" using open_store_truncates(2)[OF t lt] by simp
  have t': "tip_height ?st' = Some 5" by (rule open_store_truncates(3)[OF t lt])
  have "read_record (take (5 * stride) (concat hs)) 5 = hs ! 4"
    using assms(2) unfolding hs by (simp add: read_record_def)
  then have c: "chain_tip ?st' = Inr (hs ! 4, 5)" using t' f by (simp add: chain_tip_def)
  show ?thesis using o l c unfolding st_def by blast
qed

lemma toy_chain_10:
  "toy_chain 10 = [toy_header 1, toy_header 2, toy_header 3, toy_header 4, toy_header 5,
                   toy_header 6, toy_header 7, toy_header 8, toy_header 9, toy_header 10]"
  by code_simp

lemma toy_chain_3: "toy_chain 3 = [toy_header 1, toy_header 2, toy_header 3]"
  by code_simp

lemma toy_header_facts:
  "length (toy_header n) = stride" "toy_hash (toy_header n) = ucast (of_nat n :: byte)"
  by (simp_all add: toy_header_def toy_hash_def stride_def)

lemma concat_drop_uniform:
  "list_all (\<lambda>r. length r = n) hs \<Longrightarrow> drop (k * n) (concat hs) = concat (drop k hs)"
proof (induction hs arbitrary: k)
  case Nil
  then show ?case by simp
next
  case (Cons h hs)
  then show ?case by (cases k) simp_all
qed

lemma length_concat_uniform:
  "list_all (\<lambda>r. length r = n) hs \<Longrightarrow> length (concat hs) = length hs * n"
  by (induction hs) simp_all

lemma decode_records_concat:
  assumes "list_all (\<lambda>r. length r = stride) hs"
  shows "decode_records (length hs) (concat hs) = hs"
proof (rule nth_equalityI)
  show "length (decode_records (length hs) (concat hs)) = length hs"
    by (simp add: decode_records_def)
next
  fix i assume "i < length (decode_records (length hs) (concat hs))"
  then have i: "i < length hs" by (simp add: decode_records_def)
  have a: "list_all (\<lambda>r. length r = stride) (drop i hs)"
    using assms by (simp add: list_all_iff) (meson in_set_dropD)
  obtain h tl where d: "drop i hs = h # tl" using i by (cases "drop i hs") simp_all
  then have h: "h = hs ! i" using i by (metis nth_via_drop)
  have "length h = stride" using a d by simp
  then have "take stride (drop (i * stride) (concat hs)) = h"
    by (simp add: concat_drop_uniform[OF assms] d)
  then show "decode_records (length hs) (concat hs) ! i = hs ! i"
    using i h by (simp add: decode_records_def)
qed

lemma toy_chain_facts:
  "length (toy_chain n) = n" "list_all (\<lambda>r. length r = stride) (toy_chain n)"
  "0 < n \<Longrightarrow> toy_chain n \<noteq> []" "0 < n \<Longrightarrow> last (toy_chain n) = toy_header n"
proof -
  show "length (toy_chain n) = n" by (simp add: toy_chain_def)
  show "list_all (\<lambda>r. length r = stride) (toy_chain n)"
    by (simp add: toy_chain_def list_all_iff toy_header_def stride_def)
  assume n: "0 < n"
  then show "toy_chain n \<noteq> []" by (simp add: toy_chain_def)
  from n obtain m where m: "n = Suc m" by (cases n) simp_all
  show "last (toy_chain n) = toy_header n"
    unfolding m toy_chain_def by (simp del: upt_Suc add: upt_Suc_append)
qed

lemma stored_chain:
  assumes "list_all (\<lambda>r. length r = stride) hs" and "hs \<noteq> []"
    and "st = write_headers H (new_store g) hs"
  shows "hs_file st = concat hs" "length (hs_file st) = length hs * stride"
    "map_of (hs_index st) (H (last hs)) = Some (length hs)"
proof -
  have t0: "tip_height (new_store g) = Some 0" by (simp add: tip_height_def new_store_def)
  have th: "tip_height st = Some (length hs)"
    using write_headers_tip_height[OF t0, of H hs] assms(3) by simp
  have tip: "hs_tip st = H (last hs)" using write_headers_tip[OF assms(2)] assms(3) by simp
  show "map_of (hs_index st) (H (last hs)) = Some (length hs)"
    using th tip by (simp add: tip_height_def)
  show fl: "hs_file st = concat hs"
    using write_headers_file[of H "new_store g" hs] assms(3) by (simp add: new_store_def)
  show "length (hs_file st) = length hs * stride"
    unfolding fl by (rule length_concat_uniform[OF assms(1)])
qed

lemma fetch_ancestor_range_within:
  assumes "list_all (\<lambda>r. length r = stride) hs" and "hs \<noteq> []"
    and "st = write_headers H (new_store g) hs"
    and "stop_height = length hs" and "stop_hash = H (last hs)"
    and "count \<le> stop_height"
  shows "fetch_ancestor_range st stop_height stop_hash count
           = Inr (drop (stop_height - count) hs, stop_height - count + 1)"
proof -
  note sc = stored_chain[OF assms(1,2,3)]
  have idx: "map_of (hs_index st) stop_hash = Some stop_height"
    using sc(3) assms(4,5) by simp
  have start: "max 1 (Suc stop_height - count) = stop_height - count + 1"
    using assms(6) by (auto simp: max_def)
  have len: "(stop_height - count) * stride + count * stride = length (hs_file st)"
    using assms(4,6) sc(2) by (simp add: add_mult_distrib[symmetric])
  have a: "list_all (\<lambda>r. length r = stride) (drop (stop_height - count) hs)"
    using assms(1) by (simp add: list_all_iff) (meson in_set_dropD)
  have l: "length (drop (stop_height - count) hs) = count" using assms(4,6) by simp
  have lc: "length (concat (drop (stop_height - count) hs)) = count * stride"
    using length_concat_uniform[OF a] l by simp
  have tk: "take (count * stride) (drop ((stop_height - count) * stride) (hs_file st))
        = concat (drop (stop_height - count) hs)"
    unfolding sc(1) concat_drop_uniform[OF assms(1)] using lc by simp
  have "(stop_height - count) * stride + count * stride \<le> length (hs_file st)"
    using len by simp
  then have "read_bulk (hs_file st) ((stop_height - count) * stride) (count * stride)
             = Some (take (count * stride) (drop ((stop_height - count) * stride) (hs_file st)))"
    unfolding read_bulk_def by (rule if_P)
  then have rb: "read_bulk (hs_file st) ((stop_height - count) * stride) (count * stride)
             = Some (concat (drop (stop_height - count) hs))"
    unfolding tk .
  have dc: "decode_records count (concat (drop (stop_height - count) hs))
            = drop (stop_height - count) hs"
    using decode_records_concat[OF a] l by simp
  show ?thesis
    unfolding fetch_ancestor_range_def Let_def start using idx rb dc by simp
qed

lemma claimed_range_beyond:
  assumes "stop_height = length hs" and "stop_height < count"
  shows "\<not> claimed_range hs stop_height count r"
proof (cases r)
  case (Inl e)
  then show ?thesis by (simp add: claimed_range_def)
next
  case (Inr p)
  obtain recs start where p: "p = (recs, start)" by (cases p)
  have "max 1 (Suc stop_height - count) = 1" using assms(2) by (simp add: max_def)
  then show ?thesis using assms by (auto simp: claimed_range_def Inr p)
qed

subsection \<open>C5: the range of ancestors\<close>

text \<open>
  Claim C5 says that for every count the result holds exactly \<open>count\<close> records that end at the
  stop height and start at \<open>stop_height - count + 1\<close>, clamped to 1.  When \<open>count\<close> is greater
  than the stop height no result can be as the claim says, whatever the store returns: from
  the height 1 to the stop height there are fewer than \<open>count\<close> records.  On a chain of three
  headers, the result for five records ending at the tip is not as claimed (the bulk read of
  five records from the height 1 runs past the end of the file).
\<close>

theorem C5_counterexample:
  "\<not> claimed_range (toy_chain 3) 3 5
        (fetch_ancestor_range (toy_store 3) 3 (toy_hash (toy_header 3)) 5)"
  by (rule claimed_range_beyond) (simp_all add: toy_chain_facts)

text \<open>
  Claim C5, amended.  For every stored chain of records \<open>hs\<close> with the tip at \<open>stop_height\<close>
  and every \<open>count\<close> that is at most \<open>stop_height\<close>,
  \<open>fetch_ancestor_range(stop_height, stop_hash, count)\<close> returns exactly \<open>count\<close> records, the
  last \<open>count\<close> records of the chain, which end at \<open>stop_height\<close>, and the start height
  \<open>stop_height - count + 1\<close>, which is at least 1: the genesis record is not returned.  That is
  what the claim says of the result.
\<close>

theorem C5_fetch_ancestor_range:
  assumes "list_all (\<lambda>r. length r = stride) hs" and "hs \<noteq> []"
    and "st = write_headers H (new_store g) hs"
    and "stop_height = length hs" and "stop_hash = H (last hs)"
    and "count \<le> stop_height"
  shows "fetch_ancestor_range st stop_height stop_hash count
           = Inr (drop (stop_height - count) hs, stop_height - count + 1)
       \<and> length (drop (stop_height - count) hs) = count
       \<and> 1 \<le> stop_height - count + 1
       \<and> claimed_range hs stop_height count
             (fetch_ancestor_range st stop_height stop_hash count)"
proof -
  have f: "fetch_ancestor_range st stop_height stop_hash count
           = Inr (drop (stop_height - count) hs, stop_height - count + 1)"
    using assms by (rule fetch_ancestor_range_within)
  have l: "length (drop (stop_height - count) hs) = count" using assms(4,6) by simp
  have "max 1 (Suc stop_height - count) = stop_height - count + 1"
    using assms(6) by (auto simp: max_def)
  then have "claimed_range hs stop_height count
      (Inr (drop (stop_height - count) hs, stop_height - count + 1))"
    using assms(4,6) l by (simp add: claimed_range_def)
  with f l show ?thesis by simp
qed

text \<open>
  The call of the store's test: the chain of 100 headers, the stop height 100 and the count
  100 give the 100 headers written, from the height 1.
\<close>

theorem C5_fetch_ancestor_range_witness:
  "list_all (\<lambda>r. length r = stride) (toy_chain 100) \<and> toy_chain 100 \<noteq> []
   \<and> (100 :: nat) = length (toy_chain 100)
   \<and> fetch_ancestor_range (toy_store 100) 100 (toy_hash (last (toy_chain 100))) 100
        = Inr (toy_chain 100, 1)
   \<and> length (toy_chain 100) = 100"
  using C5_fetch_ancestor_range [of "toy_chain 100" "toy_store 100" toy_hash 0 100
      "toy_hash (last (toy_chain 100))" 100]
  by (simp add: toy_chain_facts toy_store_def)

subsection \<open>C6: recovery at open time\<close>

text \<open>
  Claim C6.  At open time, a header file that holds more records than the index's tip height
  is truncated back to that height, the store opens and its tip height is unchanged.  In
  particular, after ten headers (of distinct hashes) were written to a new store and the index
  was truncated back by five, opening the store yields a chain tip of height 5, the fifth
  header, and a file of 5 times the record width.
\<close>

theorem C6_recovery:
  "(tip_height st = Some t \<and> t < length (hs_file st) div stride \<longrightarrow>
      open_store st = Inr (st\<lparr> hs_file := take (t * stride) (hs_file st) \<rparr>)
      \<and> length (take (t * stride) (hs_file st)) = t * stride
      \<and> tip_height (st\<lparr> hs_file := take (t * stride) (hs_file st) \<rparr>) = Some t)
   \<and> (length hs = 10 \<and> list_all (\<lambda>r. length r = stride) hs \<and> distinct (map H hs) \<longrightarrow>
        (\<exists>st'. open_store (truncate_5 H hs (write_headers H (new_store g) hs)) = Inr st'
            \<and> chain_tip st' = Inr (hs ! 4, 5) \<and> length (hs_file st') = 5 * stride))"
  using open_store_truncates [of st t] recovery_10 [of hs H g] by blast

theorem C6_recovery_witness:
  "length (toy_chain 10) = 10 \<and> list_all (\<lambda>r. length r = stride) (toy_chain 10)
   \<and> distinct (map toy_hash (toy_chain 10))
   \<and> tip_height toy_crashed = Some 5 \<and> 5 < length (hs_file toy_crashed) div stride
   \<and> length (hs_file toy_crashed) = 10 * stride
   \<and> open_store toy_crashed
        = Inr (toy_crashed\<lparr> hs_file := take (5 * stride) (hs_file toy_crashed) \<rparr>)
   \<and> chain_tip (toy_crashed\<lparr> hs_file := take (5 * stride) (hs_file toy_crashed) \<rparr>)
        = Inr (toy_header 5, 5)
   \<and> length (take (5 * stride) (hs_file toy_crashed)) = 5 * stride"
proof -
  have a: "length (toy_chain 10) = 10" "list_all (\<lambda>r. length r = stride) (toy_chain 10)"
    "distinct (map toy_hash (toy_chain 10))"
    by (simp_all add: toy_chain_10 toy_header_facts)
  have f: "hs_file toy_crashed = concat (toy_chain 10)"
    unfolding toy_crashed_def toy_store_def truncate_5_def
    by (simp add: upt_rec[of 0] upt_rec[of _ 5] numeral_eq_Suc truncate_index_def
          write_headers_file new_store_def)
  have l: "length (hs_file toy_crashed) = 10 * stride"
    unfolding f by (simp add: toy_chain_10 toy_header_facts)
  have d: "5 < length (hs_file toy_crashed) div stride" unfolding l by (simp add: stride_def)
  obtain st' where o: "open_store toy_crashed = Inr st'"
    and c: "chain_tip st' = Inr (toy_chain 10 ! 4, 5)"
    using C6_recovery [of toy_crashed 5 "toy_chain 10" toy_hash 0] a
    unfolding toy_crashed_def toy_store_def by blast
  have t: "tip_height toy_crashed = Some 5"
    using o c by (auto simp: open_store_def chain_tip_def tip_height_def
                       split: option.splits if_splits)
  have e: "open_store toy_crashed
        = Inr (toy_crashed\<lparr> hs_file := take (5 * stride) (hs_file toy_crashed) \<rparr>)"
    "length (take (5 * stride) (hs_file toy_crashed)) = 5 * stride"
    using C6_recovery [of toy_crashed 5 "toy_chain 10" toy_hash 0] t d by blast+
  have c': "chain_tip (toy_crashed\<lparr> hs_file := take (5 * stride) (hs_file toy_crashed) \<rparr>)
        = Inr (toy_header 5, 5)"
    using o c e(1) by (simp add: toy_chain_10)
  show ?thesis using a t d l e c' by simp
qed

end
